theory Spec2Isabelle
  imports Main "HOL-Library.Char_ord" "HOL-Library.List_Lexorder" "HOL-Library.Word"
begin

section \<open>Wire messages and decoded values\<close>

text \<open>
  Modelled from the spec: the message types of package \<open>localnetv1\<close> (generated code that
  is not part of \<open>client.go\<close>). A path is a Go string, compared bytewise; a payload is a
  byte slice. The enum \<open>Set\<close> is open, as every proto3 enum is: a value other than the two
  known ones is \<open>Set_other\<close>. An \<open>OpItem\<close> whose oneof body is absent or of a type that
  \<open>client.go\<close> does not know is \<open>OpItem_nil\<close>. The field \<open>Ref\<close> of a \<open>Set\<close> is a message,
  which the generated code holds as a pointer: \<open>None\<close> is the nil pointer of a \<open>Set\<close> that
  came without it.
\<close>

type_synonym path = string
type_synonym bytes = "8 word list"

datatype Set_kind = Set_ServicesSet | Set_EndpointsSet | Set_other int

record Ref =
  Set :: Set_kind
  Path :: path

datatype OpItem =
    OpItem_Set "Ref option" bytes
  | OpItem_Delete path
  | OpItem_Sync
  | OpItem_nil

text \<open>
  The value of a store entry is a \<open>proto.Message\<close> that is either a \<open>*localnetv1.Service\<close>
  or a \<open>*localnetv1.Endpoint\<close>; the two message types themselves are parameters.
\<close>

datatype ('s, 'e) Message = Service_msg 's | Endpoint_msg 'e

record ('s, 'e) ServiceEndpoints =
  Service :: 's
  Endpoints :: "'e list"

text \<open>
  \<open>proto.Unmarshal\<close> belongs to an external library: it is a parameter, one decoder for
  each message type, \<open>None\<close> when it returns an error.
\<close>

record ('s, 'e) codec =
  unmarshalService :: "bytes \<Rightarrow> 's option"
  unmarshalEndpoint :: "bytes \<Rightarrow> 'e option"

section \<open>The ordered store\<close>

text \<open>
  \<open>github.com/google/btree\<close> is an external library, and \<open>kv\<close> with its \<open>Less\<close> is declared
  in another file of the package. Modelled from the spec: items are ordered by their path
  alone, lexically. The tree is the list of its items in ascending order of key;
  \<open>ReplaceOrInsert\<close> replaces the item whose key is equal, or inserts at the key's place;
  \<open>Delete\<close> removes the item whose key is equal, if there is one; \<open>Ascend\<close> visits the items
  in the order of the list.
\<close>

type_synonym ('k, 'v) btree = "('k \<times> 'v) list"

definition btree_New :: "('k, 'v) btree" where
  "btree_New = []"

fun ReplaceOrInsert :: "'k::linorder \<Rightarrow> 'v \<Rightarrow> ('k, 'v) btree \<Rightarrow> ('k, 'v) btree" where
  "ReplaceOrInsert k v [] = [(k, v)]"
| "ReplaceOrInsert k v ((k', v') # t) =
     (if k < k' then (k, v) # (k', v') # t
      else if k' < k then (k', v') # ReplaceOrInsert k v t
      else (k, v) # t)"

fun btree_Delete :: "'k::linorder \<Rightarrow> ('k, 'v) btree \<Rightarrow> ('k, 'v) btree" where
  "btree_Delete k [] = []"
| "btree_Delete k ((k', v') # t) =
     (if k < k' then (k', v') # t
      else if k' < k then (k', v') # btree_Delete k t
      else t)"

section \<open>The grouping pass\<close>

text \<open>
  The channel \<open>results\<close> has one producer, the goroutine started at the end of \<open>NextCh\<close>.
  It is modelled by what the producer does with it: the values it sends, in order, and
  how it ends, by closing the channel or by a panic (a nil pointer dereference: the deferred
  \<open>close\<close> runs and the whole process then ends with the panic).
\<close>

datatype chan_end = Closed | Panicked

type_synonym 'a chan = "'a list \<times> chan_end"

text \<open>
  The callback given to \<open>Ascend\<close>, run over the items in ascending order. The first
  argument is the variable \<open>seps\<close> (\<open>None\<close> is the nil pointer), the last one the values
  sent so far. On a service the current aggregate, if any, is sent and a new one is
  started. On an endpoint the source reads \<open>seps.Endpoints\<close> with no test of \<open>seps\<close>:
  when \<open>seps\<close> is nil this is a nil pointer dereference.
\<close>

fun ascendItems ::
  "('s, 'e) ServiceEndpoints option \<Rightarrow> ('k \<times> ('s, 'e) Message) list
     \<Rightarrow> ('s, 'e) ServiceEndpoints list \<Rightarrow> ('s, 'e) ServiceEndpoints chan" where
  "ascendItems seps [] sent =
     (case seps of None \<Rightarrow> (sent, Closed) | Some a \<Rightarrow> (sent @ [a], Closed))"
| "ascendItems seps ((k, Service_msg s) # t) sent =
     ascendItems (Some \<lparr>Service = s, Endpoints = []\<rparr>) t
       (case seps of None \<Rightarrow> sent | Some a \<Rightarrow> sent @ [a])"
| "ascendItems seps ((k, Endpoint_msg e) # t) sent =
     (case seps of
        None \<Rightarrow> (sent, Panicked)
      | Some a \<Rightarrow> ascendItems (Some (a\<lparr>Endpoints := Endpoints a @ [e]\<rparr>)) t sent)"

text \<open>The goroutine: \<open>epc.data\<close> may be the nil tree, on which \<open>Ascend\<close> panics.\<close>

definition Grouper ::
  "('k, ('s, 'e) Message) btree option \<Rightarrow> ('s, 'e) ServiceEndpoints chan" where
  "Grouper d = (case d of None \<Rightarrow> ([], Panicked) | Some t \<Rightarrow> ascendItems None t [])"

section \<open>The client and what surrounds it\<close>

text \<open>
  A call either returns, or panics, or never returns because it waits for an answer that
  does not come.
\<close>

datatype 'a outcome = Returns 'a | Panics | Blocks

text \<open>
  The fields of \<open>EndpointsClient\<close> that the modelled methods read or write. \<open>conn\<close> and
  \<open>watch\<close> hold the handle that the transport gave, \<open>None\<close> for nil; \<open>data\<close> is nil until
  the first successful \<open>dial\<close>. \<open>ErrorDelay\<close> is a duration in ticks of the clock below.
\<close>

record ('s, 'e) EndpointsClient =
  ErrorDelay :: nat
  conn :: "nat option"
  watch :: "nat option"
  data :: "(path, ('s, 'e) Message) btree option"

text \<open>
  The transport and the context are external. Each blocking call takes its answer, with
  the time the call lasts, from the head of a script; a call that finds its script empty
  never returns. \<open>DialCanceled\<close> is the error \<open>context.Canceled\<close>.
\<close>

datatype DialResult = DialOk nat | DialFailed | DialCanceled
datatype WatchResult = WatchOk nat | WatchFailed
datatype RecvResult = RecvOp OpItem | RecvFailed

text \<open>What the client does to the outside, in program order.\<close>

datatype 'r event =
    Ev_Dial DialResult
  | Ev_Watch WatchResult
  | Ev_ConnClose
  | Ev_CloseSend
  | Ev_BtreeNew
  | Ev_Sleep nat nat
  | Ev_Send nat 'r bool
  | Ev_Recv RecvResult
  | Ev_Unmarshal bytes
  | Ev_Log string

text \<open>
  \<open>cancelAt\<close> is the time at which \<open>Cancel\<close> is called, if ever: from then on
  \<open>epc.ctx.Err()\<close> is not nil. \<open>Ev_Sleep t d\<close> is a call of \<open>time.Sleep d\<close> entered at
  time \<open>t\<close>.
\<close>

record 'r world =
  clock :: nat
  cancelAt :: "nat option"
  dials :: "(nat \<times> DialResult) list"
  watches :: "(nat \<times> WatchResult) list"
  sends :: "(nat \<times> bool) list"
  recvs :: "(nat \<times> RecvResult) list"
  trace :: "'r event list"

definition ctxErr :: "'r world \<Rightarrow> bool" where
  "ctxErr w = (case cancelAt w of None \<Rightarrow> False | Some t \<Rightarrow> t \<le> clock w)"

definition elapse :: "nat \<Rightarrow> 'r world \<Rightarrow> 'r world" where
  "elapse d w = w\<lparr>clock := clock w + d\<rparr>"

definition emit :: "'r event \<Rightarrow> 'r world \<Rightarrow> 'r world" where
  "emit a w = w\<lparr>trace := trace w @ [a]\<rparr>"

definition klog :: "string \<Rightarrow> 'r world \<Rightarrow> 'r world" where
  "klog msg w = emit (Ev_Log msg) w"

subsection \<open>Connecting\<close>

definition errorSleep :: "('s, 'e) EndpointsClient \<Rightarrow> 'r world \<Rightarrow> 'r world" where
  "errorSleep epc w = elapse (ErrorDelay epc) (emit (Ev_Sleep (clock w) (ErrorDelay epc)) w)"

definition DialContext :: "'r world \<Rightarrow> (DialResult \<times> 'r world) outcome" where
  "DialContext w =
     (case dials w of
        [] \<Rightarrow> Blocks
      | (lat, r) # ds \<Rightarrow> Returns (r, emit (Ev_Dial r) (elapse lat (w\<lparr>dials := ds\<rparr>))))"

definition Dial :: "'r world \<Rightarrow> (DialResult \<times> 'r world) outcome" where
  "Dial w = (if ctxErr w then Returns (DialCanceled, w) else DialContext w)"

definition Watch :: "'r world \<Rightarrow> (WatchResult \<times> 'r world) outcome" where
  "Watch w =
     (case watches w of
        [] \<Rightarrow> Blocks
      | (lat, r) # ws \<Rightarrow> Returns (r, emit (Ev_Watch r) (elapse lat (w\<lparr>watches := ws\<rparr>))))"

text \<open>
  \<open>dial\<close>: the loop at the label \<open>retry\<close>. Each turn takes one answer from the script of
  \<open>DialContext\<close>, or returns.
\<close>

function dial ::
  "('s, 'e) EndpointsClient \<times> 'r world \<Rightarrow> (bool \<times> ('s, 'e) EndpointsClient \<times> 'r world) outcome" where
  "dial (epc, w) =
     (case Dial w of
        Blocks \<Rightarrow> Blocks
      | Panics \<Rightarrow> Panics
      | Returns (DialCanceled, w1) \<Rightarrow> Returns (True, epc, w1)
      | Returns (DialFailed, w1) \<Rightarrow> dial (epc, errorSleep epc (klog ''failed to connect'' w1))
      | Returns (DialOk c, w1) \<Rightarrow>
          (case Watch w1 of
             Blocks \<Rightarrow> Blocks
           | Panics \<Rightarrow> Panics
           | Returns (WatchFailed, w2) \<Rightarrow>
               dial (epc\<lparr>conn := Some c, watch := None\<rparr>,
                 errorSleep epc (klog ''failed to start watch'' (emit Ev_ConnClose w2)))
           | Returns (WatchOk h, w2) \<Rightarrow>
               Returns (False, epc\<lparr>conn := Some c, watch := Some h, data := Some btree_New\<rparr>,
                 emit Ev_BtreeNew w2)))"
  by pat_completeness auto
termination
  by (relation "measure (\<lambda>(epc, w). length (dials w))")
     (auto simp: Dial_def DialContext_def Watch_def errorSleep_def klog_def emit_def elapse_def
           split: if_splits list.splits)

declare dial.simps [simp del]

text \<open>\<open>postError\<close>: tear down, then sleep and connect again unless canceled.\<close>

fun postError ::
  "('s, 'e) EndpointsClient \<times> 'r world \<Rightarrow> (('s, 'e) EndpointsClient \<times> 'r world) outcome" where
  "postError (epc, w) =
     (let (epc1, w1) = (case watch epc of
                          None \<Rightarrow> (epc, w)
                        | Some h \<Rightarrow> (epc\<lparr>watch := None\<rparr>, emit Ev_CloseSend w));
          (epc2, w2) = (case conn epc1 of
                          None \<Rightarrow> (epc1, w1)
                        | Some c \<Rightarrow> (epc1\<lparr>conn := None\<rparr>, emit Ev_ConnClose w1))
      in if ctxErr w2 then Returns (epc2, w2)
         else (case dial (epc2, errorSleep epc2 w2) of
                 Blocks \<Rightarrow> Blocks
               | Panics \<Rightarrow> Panics
               | Returns (canceled, epc3, w3) \<Rightarrow> Returns (epc3, w3)))"

declare postError.simps [simp del]

subsection \<open>One round\<close>

definition Send :: "nat \<Rightarrow> 'r \<Rightarrow> 'r world \<Rightarrow> (bool \<times> 'r world) outcome" where
  "Send h req w =
     (case sends w of
        [] \<Rightarrow> Blocks
      | (lat, ok) # ss \<Rightarrow> Returns (ok, emit (Ev_Send h req ok) (elapse lat (w\<lparr>sends := ss\<rparr>))))"

definition Recv :: "'r world \<Rightarrow> (RecvResult \<times> 'r world) outcome" where
  "Recv w =
     (case recvs w of
        [] \<Rightarrow> Blocks
      | (lat, r) # rs \<Rightarrow> Returns (r, emit (Ev_Recv r) (elapse lat (w\<lparr>recvs := rs\<rparr>))))"

text \<open>What the body of the receive loop asks of the loop: go on, or leave it.\<close>

datatype flow = Continue | Break

text \<open>
  The end of the \<open>Set\<close> case: \<open>proto.Unmarshal\<close>, then \<open>ReplaceOrInsert\<close>. A nil tree
  would make \<open>ReplaceOrInsert\<close> and \<open>Delete\<close> panic.
\<close>

definition unmarshalAndStore ::
  "path \<Rightarrow> bytes \<Rightarrow> (bytes \<Rightarrow> ('s, 'e) Message option)
     \<Rightarrow> ('s, 'e) EndpointsClient \<times> 'r world
     \<Rightarrow> (flow \<times> ('s, 'e) EndpointsClient \<times> 'r world) outcome" where
  "unmarshalAndStore p bs dec = (\<lambda>(epc, w).
     (let w1 = emit (Ev_Unmarshal bs) w in
      case dec bs of
        None \<Rightarrow> Returns (Continue, epc, klog ''failed to parse value'' w1)
      | Some v \<Rightarrow>
          (case data epc of
             None \<Rightarrow> Panics
           | Some t \<Rightarrow> Returns (Continue, epc\<lparr>data := Some (ReplaceOrInsert p v t)\<rparr>, w1))))"

text \<open>
  The \<open>switch\<close> on the type of \<open>op.Op\<close>; it has no default case. The \<open>Set\<close> case reads
  \<open>set.Ref.Set\<close> with no test of \<open>set.Ref\<close>: a nil pointer dereference when the \<open>Set\<close>
  came without its \<open>Ref\<close>.
\<close>

definition opBody ::
  "('s, 'e) codec \<Rightarrow> OpItem \<Rightarrow> ('s, 'e) EndpointsClient \<times> 'r world
     \<Rightarrow> (flow \<times> ('s, 'e) EndpointsClient \<times> 'r world) outcome" where
  "opBody c op = (\<lambda>(epc, w).
     (case op of
        OpItem_Set None bs \<Rightarrow> Panics
      | OpItem_Set (Some ref) bs \<Rightarrow>
          (case Set ref of
             Set_ServicesSet \<Rightarrow>
               unmarshalAndStore (Path ref) bs
                 (\<lambda>b. map_option Service_msg (unmarshalService c b)) (epc, w)
           | Set_EndpointsSet \<Rightarrow>
               unmarshalAndStore (Path ref) bs
                 (\<lambda>b. map_option Endpoint_msg (unmarshalEndpoint c b)) (epc, w)
           | Set_other n \<Rightarrow> Returns (Continue, epc, w))
      | OpItem_Delete p \<Rightarrow>
          (case data epc of
             None \<Rightarrow> Panics
           | Some t \<Rightarrow> Returns (Continue, epc\<lparr>data := Some (btree_Delete p t)\<rparr>, w))
      | OpItem_Sync \<Rightarrow> Returns (Break, epc, w)
      | OpItem_nil \<Rightarrow> Returns (Continue, epc, w)))"

text \<open>
  The loop at the label \<open>apply\<close>. The result is \<open>True\<close> when \<open>Sync\<close> ended the loop and
  \<open>False\<close> when \<open>Recv\<close> failed.
\<close>

function applyLoop ::
  "('s, 'e) codec \<Rightarrow> ('s, 'e) EndpointsClient \<times> 'r world
     \<Rightarrow> (bool \<times> ('s, 'e) EndpointsClient \<times> 'r world) outcome" where
  "applyLoop c (epc, w) =
     (case Recv w of
        Blocks \<Rightarrow> Blocks
      | Panics \<Rightarrow> Panics
      | Returns (RecvFailed, w1) \<Rightarrow> Returns (False, epc, w1)
      | Returns (RecvOp op, w1) \<Rightarrow>
          (case opBody c op (epc, w1) of
             Blocks \<Rightarrow> Blocks
           | Panics \<Rightarrow> Panics
           | Returns (Break, epc2, w2) \<Rightarrow> Returns (True, epc2, w2)
           | Returns (Continue, epc2, w2) \<Rightarrow> applyLoop c (epc2, w2)))"
  by pat_completeness auto
termination
  by (relation "measure (\<lambda>(c, epc, w). length (recvs w))")
     (auto simp: Recv_def opBody_def unmarshalAndStore_def klog_def emit_def elapse_def Let_def
           split: if_splits list.splits OpItem.splits Set_kind.splits option.splits)

declare applyLoop.simps [simp del]

section \<open>How the loops unfold\<close>

text \<open>
  One equation for each way through a turn of \<open>dial\<close>, and the induction they give:
  on the script of \<open>DialContext\<close>, of which every turn that does not return takes one
  answer.
\<close>

lemmas world_defs = emit_def elapse_def klog_def errorSleep_def

lemma dial_canceled:
  "ctxErr w \<Longrightarrow> dial (epc, w) = Returns (True, epc, w)"
  by (subst dial.simps) (simp add: Dial_def)

lemma dial_no_answer:
  "\<not> ctxErr w \<Longrightarrow> dials w = [] \<Longrightarrow> dial (epc, w) = Blocks"
  by (subst dial.simps) (simp add: Dial_def DialContext_def)

lemma dial_DialCanceled:
  "\<not> ctxErr w \<Longrightarrow> dials w = (lat, DialCanceled) # ds \<Longrightarrow>
   dial (epc, w) = Returns (True, epc, emit (Ev_Dial DialCanceled) (elapse lat (w\<lparr>dials := ds\<rparr>)))"
  by (subst dial.simps) (simp add: Dial_def DialContext_def)

lemma dial_DialFailed:
  "\<not> ctxErr w \<Longrightarrow> dials w = (lat, DialFailed) # ds \<Longrightarrow>
   dial (epc, w) =
     dial (epc, errorSleep epc (klog ''failed to connect''
       (emit (Ev_Dial DialFailed) (elapse lat (w\<lparr>dials := ds\<rparr>)))))"
  by (subst dial.simps) (simp add: Dial_def DialContext_def)

lemma dial_Watch_no_answer:
  "\<not> ctxErr w \<Longrightarrow> dials w = (lat, DialOk c) # ds \<Longrightarrow> watches w = [] \<Longrightarrow>
   dial (epc, w) = Blocks"
  by (subst dial.simps) (simp add: Dial_def DialContext_def Watch_def world_defs)

lemma dial_WatchFailed:
  "\<not> ctxErr w \<Longrightarrow> dials w = (lat, DialOk c) # ds \<Longrightarrow> watches w = (lat', WatchFailed) # ws \<Longrightarrow>
   dial (epc, w) =
     dial (epc\<lparr>conn := Some c, watch := None\<rparr>,
       errorSleep epc (klog ''failed to start watch'' (emit Ev_ConnClose
         (emit (Ev_Watch WatchFailed) (elapse lat'
           ((emit (Ev_Dial (DialOk c)) (elapse lat (w\<lparr>dials := ds\<rparr>)))\<lparr>watches := ws\<rparr>))))))"
  by (subst dial.simps) (simp add: Dial_def DialContext_def Watch_def world_defs)

lemma dial_WatchOk:
  "\<not> ctxErr w \<Longrightarrow> dials w = (lat, DialOk c) # ds \<Longrightarrow> watches w = (lat', WatchOk h) # ws \<Longrightarrow>
   dial (epc, w) =
     Returns (False, epc\<lparr>conn := Some c, watch := Some h, data := Some btree_New\<rparr>,
       emit Ev_BtreeNew (emit (Ev_Watch (WatchOk h)) (elapse lat'
           ((emit (Ev_Dial (DialOk c)) (elapse lat (w\<lparr>dials := ds\<rparr>)))\<lparr>watches := ws\<rparr>))))"
  by (subst dial.simps) (simp add: Dial_def DialContext_def Watch_def world_defs)

lemma dial_induct' [case_names canceled no_answer DialCanceled DialFailed Watch_no_answer WatchFailed WatchOk]:
  fixes P :: "('s, 'e) EndpointsClient \<Rightarrow> 'r world \<Rightarrow> bool"
  assumes "\<And>epc w. ctxErr w \<Longrightarrow> P epc w"
    and "\<And>epc w. \<not> ctxErr w \<Longrightarrow> dials w = [] \<Longrightarrow> P epc w"
    and "\<And>epc w lat ds. \<not> ctxErr w \<Longrightarrow> dials w = (lat, DialCanceled) # ds \<Longrightarrow> P epc w"
    and "\<And>epc w lat ds. \<not> ctxErr w \<Longrightarrow> dials w = (lat, DialFailed) # ds \<Longrightarrow>
           P epc (errorSleep epc (klog ''failed to connect''
             (emit (Ev_Dial DialFailed) (elapse lat (w\<lparr>dials := ds\<rparr>))))) \<Longrightarrow> P epc w"
    and "\<And>epc w lat c ds. \<not> ctxErr w \<Longrightarrow> dials w = (lat, DialOk c) # ds \<Longrightarrow> watches w = [] \<Longrightarrow> P epc w"
    and "\<And>epc w lat c ds lat' ws. \<not> ctxErr w \<Longrightarrow> dials w = (lat, DialOk c) # ds \<Longrightarrow>
           watches w = (lat', WatchFailed) # ws \<Longrightarrow>
           P (epc\<lparr>conn := Some c, watch := None\<rparr>)
             (errorSleep epc (klog ''failed to start watch'' (emit Ev_ConnClose
               (emit (Ev_Watch WatchFailed) (elapse lat'
                 ((emit (Ev_Dial (DialOk c)) (elapse lat (w\<lparr>dials := ds\<rparr>)))\<lparr>watches := ws\<rparr>)))))) \<Longrightarrow>
           P epc w"
    and "\<And>epc w lat c ds lat' h ws. \<not> ctxErr w \<Longrightarrow> dials w = (lat, DialOk c) # ds \<Longrightarrow>
           watches w = (lat', WatchOk h) # ws \<Longrightarrow> P epc w"
  shows "P epc w"
proof (induction "length (dials w)" arbitrary: epc w rule: less_induct)
  case less
  show ?case
  proof (cases "ctxErr w")
    case True
    then show ?thesis by (rule assms(1))
  next
    case nc: False
    show ?thesis
    proof (cases "dials w")
      case Nil
      with nc show ?thesis by (rule assms(2))
    next
      case (Cons a ds)
      obtain lat r where a: "a = (lat, r)" by (cases a)
      show ?thesis
      proof (cases r)
        case DialCanceled
        with nc Cons a show ?thesis by (auto intro: assms(3))
      next
        case DialFailed
        with nc Cons a have d: "dials w = (lat, DialFailed) # ds" by simp
        show ?thesis
          by (rule assms(4)[OF nc d], rule less.hyps) (simp add: world_defs d)
      next
        case (DialOk c)
        with nc Cons a have d: "dials w = (lat, DialOk c) # ds" by simp
        show ?thesis
        proof (cases "watches w")
          case Nil
          with nc d show ?thesis by (rule assms(5))
        next
          case (Cons b ws)
          obtain lat' r' where b: "b = (lat', r')" by (cases b)
          show ?thesis
          proof (cases r')
            case (WatchOk h)
            with Cons b have "watches w = (lat', WatchOk h) # ws" by simp
            with nc d show ?thesis by (rule assms(7))
          next
            case WatchFailed
            with Cons b have e: "watches w = (lat', WatchFailed) # ws" by simp
            show ?thesis
              by (rule assms(6)[OF nc d e], rule less.hyps) (simp add: world_defs d)
          qed
        qed
      qed
    qed
  qed
qed

lemma dial_sends:
  "dial (epc, w) = Returns (b, epc', w') \<Longrightarrow> sends w' = sends w"
  by (induction epc w rule: dial_induct')
     (auto simp: dial_canceled dial_no_answer dial_DialCanceled dial_DialFailed
        dial_Watch_no_answer dial_WatchFailed dial_WatchOk world_defs)

lemma postError_sends:
  "postError (epc, w) = Returns ew \<Longrightarrow> sends (snd ew) = sends w"
  by (cases ew)
     (auto simp: postError.simps Let_def world_defs
           split: option.splits if_splits outcome.splits prod.splits dest!: dial_sends)

lemma opBody_sends:
  "opBody c op (epc, w) = Returns (fl, epc', w') \<Longrightarrow> sends w' = sends w"
  by (auto simp: opBody_def unmarshalAndStore_def Let_def world_defs
           split: OpItem.splits Set_kind.splits option.splits)

text \<open>The world after \<open>Recv\<close> has given its answer; the turns of the receive loop.\<close>

definition did_Recv :: "nat \<Rightarrow> RecvResult \<Rightarrow> (nat \<times> RecvResult) list \<Rightarrow> 'r world \<Rightarrow> 'r world" where
  "did_Recv lat r rs w = emit (Ev_Recv r) (elapse lat (w\<lparr>recvs := rs\<rparr>))"

lemma opBody_not_Blocks: "opBody c op (epc, w) \<noteq> Blocks"
  by (simp add: opBody_def unmarshalAndStore_def Let_def
           split: OpItem.splits Set_kind.splits option.splits)

lemma opBody_recvs:
  "opBody c op (epc, w) = Returns (fl, epc', w') \<Longrightarrow> recvs w' = recvs w"
  by (auto simp: opBody_def unmarshalAndStore_def Let_def world_defs
           split: OpItem.splits Set_kind.splits option.splits)

lemma applyLoop_no_answer:
  "recvs w = [] \<Longrightarrow> applyLoop c (epc, w) = Blocks"
  by (subst applyLoop.simps) (simp add: Recv_def)

lemma applyLoop_RecvFailed:
  "recvs w = (lat, RecvFailed) # rs \<Longrightarrow>
   applyLoop c (epc, w) = Returns (False, epc, did_Recv lat RecvFailed rs w)"
  by (subst applyLoop.simps) (simp add: Recv_def did_Recv_def)

lemma applyLoop_RecvOp:
  "recvs w = (lat, RecvOp op) # rs \<Longrightarrow>
   applyLoop c (epc, w) =
     (case opBody c op (epc, did_Recv lat (RecvOp op) rs w) of
        Blocks \<Rightarrow> Blocks
      | Panics \<Rightarrow> Panics
      | Returns (Break, epc2, w2) \<Rightarrow> Returns (True, epc2, w2)
      | Returns (Continue, epc2, w2) \<Rightarrow> applyLoop c (epc2, w2))"
  by (subst applyLoop.simps) (simp add: Recv_def did_Recv_def)

lemma applyLoop_induct' [case_names no_answer RecvFailed Panics Break Continue]:
  fixes P :: "('s, 'e) EndpointsClient \<Rightarrow> 'r world \<Rightarrow> bool"
  assumes "\<And>epc w. recvs w = [] \<Longrightarrow> P epc w"
    and "\<And>epc w lat rs. recvs w = (lat, RecvFailed) # rs \<Longrightarrow> P epc w"
    and "\<And>epc w lat op rs. recvs w = (lat, RecvOp op) # rs \<Longrightarrow>
           opBody c op (epc, did_Recv lat (RecvOp op) rs w) = Panics \<Longrightarrow> P epc w"
    and "\<And>epc w lat op rs epc2 w2. recvs w = (lat, RecvOp op) # rs \<Longrightarrow>
           opBody c op (epc, did_Recv lat (RecvOp op) rs w) = Returns (Break, epc2, w2) \<Longrightarrow> P epc w"
    and "\<And>epc w lat op rs epc2 w2. recvs w = (lat, RecvOp op) # rs \<Longrightarrow>
           opBody c op (epc, did_Recv lat (RecvOp op) rs w) = Returns (Continue, epc2, w2) \<Longrightarrow>
           P epc2 w2 \<Longrightarrow> P epc w"
  shows "P epc w"
proof (induction "length (recvs w)" arbitrary: epc w rule: less_induct)
  case less
  show ?case
  proof (cases "recvs w")
    case Nil
    then show ?thesis by (rule assms(1))
  next
    case (Cons a rs)
    obtain lat r where a: "a = (lat, r)" by (cases a)
    show ?thesis
    proof (cases r)
      case RecvFailed
      with Cons a show ?thesis by (auto intro: assms(2))
    next
      case (RecvOp op)
      with Cons a have r: "recvs w = (lat, RecvOp op) # rs" by simp
      show ?thesis
      proof (cases "opBody c op (epc, did_Recv lat (RecvOp op) rs w)")
        case (Returns x)
        obtain fl epc2 w2 where x: "x = (fl, epc2, w2)" by (cases x)
        show ?thesis
        proof (cases fl)
          case Continue
          have "recvs w2 = rs"
            using opBody_recvs Returns x by (fastforce simp: did_Recv_def world_defs)
          then have "P epc2 w2" using r by (intro less.hyps) simp
          with r Returns x Continue show ?thesis by (auto intro: assms(5))
        next
          case Break
          with r Returns x show ?thesis by (auto intro: assms(4))
        qed
      next
        case Panics
        with r show ?thesis by (rule assms(3))
      next
        case Blocks
        then show ?thesis by (simp add: opBody_not_Blocks)
      qed
    qed
  qed
qed

lemma applyLoop_sends:
  "applyLoop c (epc, w) = Returns (b, epc', w') \<Longrightarrow> sends w' = sends w"
  by (induction epc w rule: applyLoop_induct'[where c = c])
     (auto simp: applyLoop_no_answer applyLoop_RecvFailed applyLoop_RecvOp did_Recv_def world_defs
           dest: opBody_sends)

text \<open>
  \<open>NextCh\<close> from the label \<open>retry\<close> on. \<open>epc.watch.Send\<close> on a nil interface would
  panic. The goroutine is started when \<open>Sync\<close> has ended the receive loop; the channel
  it fills is returned.
\<close>

function NextCh_retry ::
  "('s, 'e) codec \<Rightarrow> 'r \<Rightarrow> ('s, 'e) EndpointsClient \<times> 'r world
     \<Rightarrow> ((('s, 'e) ServiceEndpoints chan \<times> bool) \<times> ('s, 'e) EndpointsClient \<times> 'r world) outcome" where
  "NextCh_retry c req (epc, w) =
     (if ctxErr w then Returns ((([], Closed), True), epc, w)
      else
        (case watch epc of
           None \<Rightarrow> Panics
         | Some h \<Rightarrow>
             (case Send h req w of
                Blocks \<Rightarrow> Blocks
              | Panics \<Rightarrow> Panics
              | Returns (False, w1) \<Rightarrow>
                  (case postError (epc, w1) of
                     Blocks \<Rightarrow> Blocks
                   | Panics \<Rightarrow> Panics
                   | Returns ew \<Rightarrow> NextCh_retry c req ew)
              | Returns (True, w1) \<Rightarrow>
                  (case applyLoop c (epc, w1) of
                     Blocks \<Rightarrow> Blocks
                   | Panics \<Rightarrow> Panics
                   | Returns (False, epc2, w2) \<Rightarrow>
                       (case postError (epc2, klog ''watch recv failed'' w2) of
                          Blocks \<Rightarrow> Blocks
                        | Panics \<Rightarrow> Panics
                        | Returns ew \<Rightarrow> NextCh_retry c req ew)
                   | Returns (True, epc2, w2) \<Rightarrow>
                       Returns ((Grouper (data epc2), False), epc2, w2)))))"
  by pat_completeness auto
termination
proof (relation "measure (\<lambda>(c, req, epc, w). length (sends w))", goal_cases)
  case 1
  show ?case by simp
next
  case 2
  then show ?case
    apply (clarsimp simp: Send_def split: list.splits)
    apply (drule postError_sends)
    apply ((drule applyLoop_sends)?)
    apply (simp add: klog_def emit_def elapse_def split_def)
    done
next
  case 3
  then show ?case
    apply (clarsimp simp: Send_def split: list.splits)
    apply (drule postError_sends)
    apply ((drule applyLoop_sends)?)
    apply (simp add: klog_def emit_def elapse_def split_def)
    done
qed

declare NextCh_retry.simps [simp del]

definition NextCh ::
  "('s, 'e) codec \<Rightarrow> 'r \<Rightarrow> ('s, 'e) EndpointsClient \<times> 'r world
     \<Rightarrow> ((('s, 'e) ServiceEndpoints chan \<times> bool) \<times> ('s, 'e) EndpointsClient \<times> 'r world) outcome" where
  "NextCh c req = (\<lambda>(epc, w).
     (case (if watch epc = None then dial (epc, w) else Returns (False, epc, w)) of
        Blocks \<Rightarrow> Blocks
      | Panics \<Rightarrow> Panics
      | Returns (canceled, epc1, w1) \<Rightarrow> NextCh_retry c req (epc1, w1)))"

text \<open>The loop \<open>for seps := range ch\<close> of \<open>Next\<close>, over the values the channel delivers.\<close>

fun range_chan :: "'a list \<Rightarrow> 'a list \<Rightarrow> 'a list" where
  "range_chan [] items = items"
| "range_chan (seps # ch) items = range_chan ch (items @ [seps])"

text \<open>
  \<open>Next\<close>. When canceled, \<open>items\<close> is still the nil slice. Otherwise \<open>epc.data.Len()\<close> is
  read (a panic on the nil tree) and the channel is drained until it is closed; if the
  goroutine panics, the process ends with that panic and \<open>Next\<close> is taken not to return.
\<close>

definition Next ::
  "('s, 'e) codec \<Rightarrow> 'r \<Rightarrow> ('s, 'e) EndpointsClient \<times> 'r world
     \<Rightarrow> ((('s, 'e) ServiceEndpoints list \<times> bool) \<times> ('s, 'e) EndpointsClient \<times> 'r world) outcome" where
  "Next c req = (\<lambda>(epc, w).
     (case NextCh c req (epc, w) of
        Blocks \<Rightarrow> Blocks
      | Panics \<Rightarrow> Panics
      | Returns ((ch, canceled), epc1, w1) \<Rightarrow>
          (if canceled then Returns (([], True), epc1, w1)
           else
             (case data epc1 of
                None \<Rightarrow> Panics
              | Some t \<Rightarrow>
                  (case ch of
                     (sent, Closed) \<Rightarrow> Returns ((range_chan sent [], False), epc1, w1)
                   | (sent, Panicked) \<Rightarrow> Panics)))))"

text \<open>A client as \<open>New\<close> leaves it, with the retry delay that the flags give.\<close>

definition New :: "nat \<Rightarrow> ('s, 'e) EndpointsClient" where
  "New delay = \<lparr>ErrorDelay = delay, conn = None, watch = None, data = None\<rparr>"

section \<open>How a round unfolds\<close>

text \<open>The world after \<open>Send\<close> has given its answer; one equation for each way through
  a turn of the loop at \<open>retry\<close>, and the induction they give.\<close>

definition did_Send :: "nat \<Rightarrow> nat \<Rightarrow> 'r \<Rightarrow> bool \<Rightarrow> (nat \<times> bool) list \<Rightarrow> 'r world \<Rightarrow> 'r world" where
  "did_Send lat h req ok ss w = emit (Ev_Send h req ok) (elapse lat (w\<lparr>sends := ss\<rparr>))"

lemma NextCh_retry_canceled:
  "ctxErr w \<Longrightarrow> NextCh_retry c req (epc, w) = Returns ((([], Closed), True), epc, w)"
  by (subst NextCh_retry.simps) simp

lemma NextCh_retry_nil_watch:
  "\<not> ctxErr w \<Longrightarrow> watch epc = None \<Longrightarrow> NextCh_retry c req (epc, w) = Panics"
  by (subst NextCh_retry.simps) simp

lemma NextCh_retry_no_answer:
  "\<not> ctxErr w \<Longrightarrow> watch epc = Some h \<Longrightarrow> sends w = [] \<Longrightarrow>
   NextCh_retry c req (epc, w) = Blocks"
  by (subst NextCh_retry.simps) (simp add: Send_def)

lemma NextCh_retry_Send_failed:
  "\<not> ctxErr w \<Longrightarrow> watch epc = Some h \<Longrightarrow> sends w = (lat, False) # ss \<Longrightarrow>
   NextCh_retry c req (epc, w) =
     (case postError (epc, did_Send lat h req False ss w) of
        Blocks \<Rightarrow> Blocks
      | Panics \<Rightarrow> Panics
      | Returns ew \<Rightarrow> NextCh_retry c req ew)"
  by (subst NextCh_retry.simps) (simp add: Send_def did_Send_def)

lemma NextCh_retry_Send_ok:
  "\<not> ctxErr w \<Longrightarrow> watch epc = Some h \<Longrightarrow> sends w = (lat, True) # ss \<Longrightarrow>
   NextCh_retry c req (epc, w) =
     (case applyLoop c (epc, did_Send lat h req True ss w) of
        Blocks \<Rightarrow> Blocks
      | Panics \<Rightarrow> Panics
      | Returns (False, epc2, w2) \<Rightarrow>
          (case postError (epc2, klog ''watch recv failed'' w2) of
             Blocks \<Rightarrow> Blocks
           | Panics \<Rightarrow> Panics
           | Returns ew \<Rightarrow> NextCh_retry c req ew)
      | Returns (True, epc2, w2) \<Rightarrow> Returns ((Grouper (data epc2), False), epc2, w2))"
  by (subst NextCh_retry.simps) (simp add: Send_def did_Send_def)

lemma dial_not_Panics: "dial (epc, w) \<noteq> Panics"
  by (induction epc w rule: dial_induct')
     (simp_all add: dial_canceled dial_no_answer dial_DialCanceled dial_DialFailed
        dial_Watch_no_answer dial_WatchFailed dial_WatchOk)

lemma postError_not_Panics: "postError (epc, w) \<noteq> Panics"
  using dial_not_Panics
  by (auto simp: postError.simps Let_def split: option.splits outcome.splits prod.splits)

lemma applyLoop_Panics:
  "recvs w = (lat, RecvOp op) # rs \<Longrightarrow>
   opBody c op (epc, did_Recv lat (RecvOp op) rs w) = Panics \<Longrightarrow>
   applyLoop c (epc, w) = Panics"
  by (simp add: applyLoop_RecvOp)

lemma applyLoop_Break:
  "recvs w = (lat, RecvOp op) # rs \<Longrightarrow>
   opBody c op (epc, did_Recv lat (RecvOp op) rs w) = Returns (Break, epc2, w2) \<Longrightarrow>
   applyLoop c (epc, w) = Returns (True, epc2, w2)"
  by (simp add: applyLoop_RecvOp)

lemma applyLoop_Continue:
  "recvs w = (lat, RecvOp op) # rs \<Longrightarrow>
   opBody c op (epc, did_Recv lat (RecvOp op) rs w) = Returns (Continue, epc2, w2) \<Longrightarrow>
   applyLoop c (epc, w) = applyLoop c (epc2, w2)"
  by (simp add: applyLoop_RecvOp)

lemmas applyLoop_steps =
  applyLoop_no_answer applyLoop_RecvFailed applyLoop_Panics applyLoop_Break applyLoop_Continue

lemmas dial_steps =
  dial_canceled dial_no_answer dial_DialCanceled dial_DialFailed
  dial_Watch_no_answer dial_WatchFailed dial_WatchOk

lemma NextCh_retry_Send_failed_Blocks:
  "\<not> ctxErr w \<Longrightarrow> watch epc = Some h \<Longrightarrow> sends w = (lat, False) # ss \<Longrightarrow>
   postError (epc, did_Send lat h req False ss w) = Blocks \<Longrightarrow>
   NextCh_retry c req (epc, w) = Blocks"
  by (simp add: NextCh_retry_Send_failed)

lemma NextCh_retry_Send_failed_retry:
  "\<not> ctxErr w \<Longrightarrow> watch epc = Some h \<Longrightarrow> sends w = (lat, False) # ss \<Longrightarrow>
   postError (epc, did_Send lat h req False ss w) = Returns (epc', w') \<Longrightarrow>
   NextCh_retry c req (epc, w) = NextCh_retry c req (epc', w')"
  by (simp add: NextCh_retry_Send_failed)

lemma NextCh_retry_loop_Blocks:
  "\<not> ctxErr w \<Longrightarrow> watch epc = Some h \<Longrightarrow> sends w = (lat, True) # ss \<Longrightarrow>
   applyLoop c (epc, did_Send lat h req True ss w) = Blocks \<Longrightarrow>
   NextCh_retry c req (epc, w) = Blocks"
  by (simp add: NextCh_retry_Send_ok)

lemma NextCh_retry_loop_Panics:
  "\<not> ctxErr w \<Longrightarrow> watch epc = Some h \<Longrightarrow> sends w = (lat, True) # ss \<Longrightarrow>
   applyLoop c (epc, did_Send lat h req True ss w) = Panics \<Longrightarrow>
   NextCh_retry c req (epc, w) = Panics"
  by (simp add: NextCh_retry_Send_ok)

lemma NextCh_retry_Sync:
  "\<not> ctxErr w \<Longrightarrow> watch epc = Some h \<Longrightarrow> sends w = (lat, True) # ss \<Longrightarrow>
   applyLoop c (epc, did_Send lat h req True ss w) = Returns (True, epc2, w2) \<Longrightarrow>
   NextCh_retry c req (epc, w) = Returns ((Grouper (data epc2), False), epc2, w2)"
  by (simp add: NextCh_retry_Send_ok)

lemma NextCh_retry_Recv_failed_Blocks:
  "\<not> ctxErr w \<Longrightarrow> watch epc = Some h \<Longrightarrow> sends w = (lat, True) # ss \<Longrightarrow>
   applyLoop c (epc, did_Send lat h req True ss w) = Returns (False, epc2, w2) \<Longrightarrow>
   postError (epc2, klog ''watch recv failed'' w2) = Blocks \<Longrightarrow>
   NextCh_retry c req (epc, w) = Blocks"
  by (simp add: NextCh_retry_Send_ok)

lemma NextCh_retry_Recv_failed_retry:
  "\<not> ctxErr w \<Longrightarrow> watch epc = Some h \<Longrightarrow> sends w = (lat, True) # ss \<Longrightarrow>
   applyLoop c (epc, did_Send lat h req True ss w) = Returns (False, epc2, w2) \<Longrightarrow>
   postError (epc2, klog ''watch recv failed'' w2) = Returns (epc', w') \<Longrightarrow>
   NextCh_retry c req (epc, w) = NextCh_retry c req (epc', w')"
  by (simp add: NextCh_retry_Send_ok)

lemmas NextCh_retry_steps =
  NextCh_retry_canceled NextCh_retry_nil_watch NextCh_retry_no_answer
  NextCh_retry_Send_failed_Blocks NextCh_retry_Send_failed_retry
  NextCh_retry_loop_Blocks NextCh_retry_loop_Panics NextCh_retry_Sync
  NextCh_retry_Recv_failed_Blocks NextCh_retry_Recv_failed_retry

lemma NextCh_retry_induct' [case_names canceled nil_watch no_answer Send_failed_Blocks
    Send_failed_retry loop_Blocks loop_Panics Sync Recv_failed_Blocks Recv_failed_retry]:
  fixes P :: "('s, 'e) EndpointsClient \<Rightarrow> 'r world \<Rightarrow> bool"
  assumes "\<And>epc w. ctxErr w \<Longrightarrow> P epc w"
    and "\<And>epc w. \<not> ctxErr w \<Longrightarrow> watch epc = None \<Longrightarrow> P epc w"
    and "\<And>epc w h. \<not> ctxErr w \<Longrightarrow> watch epc = Some h \<Longrightarrow> sends w = [] \<Longrightarrow> P epc w"
    and "\<And>epc w h lat ss. \<not> ctxErr w \<Longrightarrow> watch epc = Some h \<Longrightarrow>
           sends w = (lat, False) # ss \<Longrightarrow>
           postError (epc, did_Send lat h req False ss w) = Blocks \<Longrightarrow> P epc w"
    and "\<And>epc w h lat ss epc' w'. \<not> ctxErr w \<Longrightarrow> watch epc = Some h \<Longrightarrow>
           sends w = (lat, False) # ss \<Longrightarrow>
           postError (epc, did_Send lat h req False ss w) = Returns (epc', w') \<Longrightarrow>
           P epc' w' \<Longrightarrow> P epc w"
    and "\<And>epc w h lat ss. \<not> ctxErr w \<Longrightarrow> watch epc = Some h \<Longrightarrow>
           sends w = (lat, True) # ss \<Longrightarrow>
           applyLoop c (epc, did_Send lat h req True ss w) = Blocks \<Longrightarrow> P epc w"
    and "\<And>epc w h lat ss. \<not> ctxErr w \<Longrightarrow> watch epc = Some h \<Longrightarrow>
           sends w = (lat, True) # ss \<Longrightarrow>
           applyLoop c (epc, did_Send lat h req True ss w) = Panics \<Longrightarrow> P epc w"
    and "\<And>epc w h lat ss epc2 w2. \<not> ctxErr w \<Longrightarrow> watch epc = Some h \<Longrightarrow>
           sends w = (lat, True) # ss \<Longrightarrow>
           applyLoop c (epc, did_Send lat h req True ss w) = Returns (True, epc2, w2) \<Longrightarrow> P epc w"
    and "\<And>epc w h lat ss epc2 w2. \<not> ctxErr w \<Longrightarrow> watch epc = Some h \<Longrightarrow>
           sends w = (lat, True) # ss \<Longrightarrow>
           applyLoop c (epc, did_Send lat h req True ss w) = Returns (False, epc2, w2) \<Longrightarrow>
           postError (epc2, klog ''watch recv failed'' w2) = Blocks \<Longrightarrow> P epc w"
    and "\<And>epc w h lat ss epc2 w2 epc' w'. \<not> ctxErr w \<Longrightarrow> watch epc = Some h \<Longrightarrow>
           sends w = (lat, True) # ss \<Longrightarrow>
           applyLoop c (epc, did_Send lat h req True ss w) = Returns (False, epc2, w2) \<Longrightarrow>
           postError (epc2, klog ''watch recv failed'' w2) = Returns (epc', w') \<Longrightarrow>
           P epc' w' \<Longrightarrow> P epc w"
  shows "P epc w"
proof (induction "length (sends w)" arbitrary: epc w rule: less_induct)
  case less
  show ?case
  proof (cases "ctxErr w")
    case True
    then show ?thesis by (rule assms(1))
  next
    case nc: False
    show ?thesis
    proof (cases "watch epc")
      case None
      with nc show ?thesis by (rule assms(2))
    next
      case (Some h)
      show ?thesis
      proof (cases "sends w")
        case Nil
        with nc Some show ?thesis by (rule assms(3))
      next
        case (Cons a ss)
        obtain lat ok where a: "a = (lat, ok)" by (cases a)
        show ?thesis
        proof (cases ok)
          case False
          with Cons a have s: "sends w = (lat, False) # ss" by simp
          show ?thesis
          proof (cases "postError (epc, did_Send lat h req False ss w)")
            case (Returns ew)
            obtain epc' w' where ew: "ew = (epc', w')" by (cases ew)
            have "sends w' = ss"
              using Returns ew by (auto dest!: postError_sends simp: did_Send_def world_defs)
            then have "P epc' w'" using s by (intro less.hyps) simp
            with nc Some s Returns ew show ?thesis by (auto intro: assms(5))
          next
            case Panics
            then show ?thesis by (simp add: postError_not_Panics)
          next
            case Blocks
            with nc Some s show ?thesis by (rule assms(4))
          qed
        next
          case True
          with Cons a have s: "sends w = (lat, True) # ss" by simp
          show ?thesis
          proof (cases "applyLoop c (epc, did_Send lat h req True ss w)")
            case (Returns x)
            obtain b epc2 w2 where x: "x = (b, epc2, w2)" by (cases x)
            show ?thesis
            proof (cases b)
              case True
              with nc Some s Returns x show ?thesis by (auto intro: assms(8))
            next
              case False
              with Returns x
              have al: "applyLoop c (epc, did_Send lat h req True ss w) = Returns (False, epc2, w2)"
                by simp
              show ?thesis
              proof (cases "postError (epc2, klog ''watch recv failed'' w2)")
                case (Returns ew)
                obtain epc' w' where ew: "ew = (epc', w')" by (cases ew)
                have "sends w' = ss"
                  using Returns ew al
                  by (auto dest!: postError_sends applyLoop_sends simp: did_Send_def world_defs)
                then have "P epc' w'" using s by (intro less.hyps) simp
                with nc Some s al Returns ew show ?thesis by (auto intro: assms(10))
              next
                case Panics
                then show ?thesis by (simp add: postError_not_Panics)
              next
                case Blocks
                with nc Some s al show ?thesis by (rule assms(9))
              qed
            qed
          next
            case Panics
            with nc Some s show ?thesis by (rule assms(7))
          next
            case Blocks
            with nc Some s show ?thesis by (rule assms(6))
          qed
        qed
      qed
    qed
  qed
qed

section \<open>The store is an ordered map\<close>

text \<open>A tree is well formed when its paths strictly ascend; then no path occurs twice.\<close>

definition ascending :: "('k::linorder \<times> 'v) list \<Rightarrow> bool" where
  "ascending t = sorted_wrt (<) (map fst t)"

lemma keys_ReplaceOrInsert:
  "fst ` set (ReplaceOrInsert k v t) = insert k (fst ` set t)"
  by (induction t) (force split: if_splits)+

lemma ascending_ReplaceOrInsert:
  "ascending t \<Longrightarrow> ascending (ReplaceOrInsert k v t)"
  unfolding ascending_def
proof (induction t)
  case Nil
  then show ?case by simp
next
  case (Cons a t)
  obtain k' v' where a: "a = (k', v')" by (cases a)
  have "\<forall>x\<in>fst ` set (ReplaceOrInsert k v t). k' < x" if "k' < k"
    using that Cons.prems a by (auto simp: keys_ReplaceOrInsert)
  with Cons a show ?case by (auto simp: image_iff)
qed

lemma map_of_ReplaceOrInsert:
  "map_of (ReplaceOrInsert k v t) = (map_of t)(k \<mapsto> v)"
  by (induction t) (auto simp: fun_eq_iff)

lemma ReplaceOrInsert_twice:
  "ReplaceOrInsert k v (ReplaceOrInsert k v t) = ReplaceOrInsert k v t"
  by (induction t) auto

lemma keys_btree_Delete:
  "set (btree_Delete k t) \<subseteq> set t"
  by (induction t) (auto split: if_splits)

lemma ascending_btree_Delete:
  "ascending t \<Longrightarrow> ascending (btree_Delete k t)"
  unfolding ascending_def
proof (induction t)
  case Nil
  then show ?case by simp
next
  case (Cons a t)
  obtain k' v' where a: "a = (k', v')" by (cases a)
  have "\<forall>x\<in>fst ` set (btree_Delete k t). k' < x"
    using Cons.prems a keys_btree_Delete[of k t] by auto
  with Cons a show ?case by auto
qed

lemma map_of_btree_Delete:
  "ascending t \<Longrightarrow> map_of (btree_Delete k t) = (map_of t)(k := None)"
  unfolding ascending_def
proof (induction t)
  case Nil
  then show ?case by simp
next
  case (Cons a t)
  obtain k' v' where a: "a = (k', v')" by (cases a)
  have nk: "map_of t k = None" if "k \<le> k'"
    using that Cons.prems a by (force simp: map_of_eq_None_iff)
  from Cons a nk show ?case by (auto simp: fun_eq_iff)
qed

lemma btree_Delete_absent:
  "k \<notin> fst ` set t \<Longrightarrow> btree_Delete k t = t"
  by (induction t) auto


lemma length_ReplaceOrInsert:
  "ascending t \<Longrightarrow>
   length (ReplaceOrInsert k v t) = (if k \<in> fst ` set t then length t else Suc (length t))"
  unfolding ascending_def
  by (induction t) (auto simp: image_iff; force)+

lemma ascending_distinct: "ascending t \<Longrightarrow> distinct (map fst t)"
  unfolding ascending_def by (simp add: strict_sorted_iff)

text \<open>The trees that the client holds stay in strictly ascending order of path.\<close>

definition tree_ok :: "('s, 'e) EndpointsClient \<Rightarrow> bool" where
  "tree_ok epc = (case data epc of None \<Rightarrow> True | Some t \<Rightarrow> ascending t)"

lemma opBody_tree_ok:
  "opBody c op (epc, w) = Returns (fl, epc', w') \<Longrightarrow> tree_ok epc \<Longrightarrow> tree_ok epc'"
  by (auto simp: opBody_def unmarshalAndStore_def Let_def tree_ok_def
        ascending_ReplaceOrInsert ascending_btree_Delete
      split: OpItem.splits Set_kind.splits option.splits)

lemma applyLoop_tree_ok:
  "applyLoop c (epc, w) = Returns (b, epc', w') \<Longrightarrow> tree_ok epc \<Longrightarrow> tree_ok epc'"
  by (induction epc w rule: applyLoop_induct'[where c = c])
     (auto simp: applyLoop_steps dest: opBody_tree_ok)

lemma dial_tree_ok:
  "dial (epc, w) = Returns (b, epc', w') \<Longrightarrow> tree_ok epc \<Longrightarrow> tree_ok epc'"
  by (induction epc w rule: dial_induct')
     (auto simp: dial_steps tree_ok_def btree_New_def ascending_def)

lemma postError_tree_ok:
  "postError (epc, w) = Returns (epc', w') \<Longrightarrow> tree_ok epc \<Longrightarrow> tree_ok epc'"
  by (auto simp: postError.simps Let_def split: option.splits if_splits outcome.splits
      dest!: dial_tree_ok simp: tree_ok_def)

lemma NextCh_retry_tree_ok:
  "NextCh_retry c req (epc, w) = Returns (r, epc', w') \<Longrightarrow> tree_ok epc \<Longrightarrow> tree_ok epc'"
  by (induction epc w rule: NextCh_retry_induct'[where c = c and req = req])
     (auto simp: NextCh_retry_steps dest: postError_tree_ok applyLoop_tree_ok)

lemma NextCh_tree_ok:
  "NextCh c req (epc, w) = Returns (r, epc', w') \<Longrightarrow> tree_ok epc \<Longrightarrow> tree_ok epc'"
  by (auto simp: NextCh_def split: if_splits outcome.splits
      dest: NextCh_retry_tree_ok dial_tree_ok)

section \<open>What one operation does to the tree\<close>

text \<open>
  The message that lines 148 to 159 of the \<open>Set\<close> case obtain, if any, and the effect of the
  whole \<open>switch\<close> on a tree that is not nil, for an operation on which the \<open>switch\<close> does
  not panic. Both are read off \<open>opBody\<close>; lemma \<open>opBody_applied\<close> below states the agreement.
\<close>

definition decoded :: "('s, 'e) codec \<Rightarrow> Ref \<Rightarrow> bytes \<Rightarrow> ('s, 'e) Message option" where
  "decoded c ref bs =
     (case Set ref of
        Set_ServicesSet \<Rightarrow> map_option Service_msg (unmarshalService c bs)
      | Set_EndpointsSet \<Rightarrow> map_option Endpoint_msg (unmarshalEndpoint c bs)
      | Set_other n \<Rightarrow> None)"

definition applied ::
  "('s, 'e) codec \<Rightarrow> OpItem \<Rightarrow> (path, ('s, 'e) Message) btree \<Rightarrow> (path, ('s, 'e) Message) btree" where
  "applied c op t =
     (case op of
        OpItem_Set None bs \<Rightarrow> t
      | OpItem_Set (Some ref) bs \<Rightarrow>
          (case decoded c ref bs of None \<Rightarrow> t | Some v \<Rightarrow> ReplaceOrInsert (Path ref) v t)
      | OpItem_Delete p \<Rightarrow> btree_Delete p t
      | OpItem_Sync \<Rightarrow> t
      | OpItem_nil \<Rightarrow> t)"

section \<open>What a call leaves in the trace\<close>

text \<open>
  Readings of a trace: the requests sent, the operations received, how often the tree was
  made anew, how often \<open>Watch\<close> succeeded, and which events the receive loop emits while
  it goes on.
\<close>

definition requests :: "'r event list \<Rightarrow> 'r list" where
  "requests tr = concat (map (\<lambda>a. case a of Ev_Send h r ok \<Rightarrow> [r] | _ \<Rightarrow> []) tr)"

definition received_ops :: "'r event list \<Rightarrow> OpItem list" where
  "received_ops tr = concat (map (\<lambda>a. case a of Ev_Recv (RecvOp op) \<Rightarrow> [op] | _ \<Rightarrow> []) tr)"

definition rebuilds :: "'r event list \<Rightarrow> nat" where
  "rebuilds tr = length (filter (\<lambda>a. a = Ev_BtreeNew) tr)"

definition connections :: "'r event list \<Rightarrow> nat" where
  "connections tr = length (filter (\<lambda>a. case a of Ev_Watch (WatchOk h) \<Rightarrow> True | _ \<Rightarrow> False) tr)"

definition loop_event :: "'r event \<Rightarrow> bool" where
  "loop_event a = (case a of Ev_Recv (RecvOp op) \<Rightarrow> True | Ev_Unmarshal bs \<Rightarrow> True | Ev_Log m \<Rightarrow> True | _ \<Rightarrow> False)"

lemma requests_simps [simp]:
  "requests [] = []" "requests (tr @ tr') = requests tr @ requests tr'"
  "requests (Ev_Send h r ok # tr) = r # requests tr"
  "requests (Ev_Dial d # tr) = requests tr"
  "requests (Ev_Watch x # tr) = requests tr"
  "requests (Ev_ConnClose # tr) = requests tr"
  "requests (Ev_CloseSend # tr) = requests tr"
  "requests (Ev_BtreeNew # tr) = requests tr"
  "requests (Ev_Sleep t dd # tr) = requests tr"
  "requests (Ev_Recv rr # tr) = requests tr"
  "requests (Ev_Unmarshal bs # tr) = requests tr"
  "requests (Ev_Log m # tr) = requests tr"
  by (simp_all add: requests_def)

lemma rebuilds_simps [simp]:
  "rebuilds [] = 0" "rebuilds (tr @ tr') = rebuilds tr + rebuilds tr'"
  "rebuilds (Ev_Send h r ok # tr) = rebuilds tr"
  "rebuilds (Ev_Dial d # tr) = rebuilds tr"
  "rebuilds (Ev_Watch x # tr) = rebuilds tr"
  "rebuilds (Ev_ConnClose # tr) = rebuilds tr"
  "rebuilds (Ev_CloseSend # tr) = rebuilds tr"
  "rebuilds (Ev_BtreeNew # tr) = Suc (rebuilds tr)"
  "rebuilds (Ev_Sleep t dd # tr) = rebuilds tr"
  "rebuilds (Ev_Recv rr # tr) = rebuilds tr"
  "rebuilds (Ev_Unmarshal bs # tr) = rebuilds tr"
  "rebuilds (Ev_Log m # tr) = rebuilds tr"
  by (simp_all add: rebuilds_def)

lemma connections_simps [simp]:
  "connections [] = 0" "connections (tr @ tr') = connections tr + connections tr'"
  "connections (Ev_Send h r ok # tr) = connections tr"
  "connections (Ev_Dial d # tr) = connections tr"
  "connections (Ev_Watch (WatchOk h) # tr) = Suc (connections tr)"
  "connections (Ev_Watch WatchFailed # tr) = connections tr"
  "connections (Ev_ConnClose # tr) = connections tr"
  "connections (Ev_CloseSend # tr) = connections tr"
  "connections (Ev_BtreeNew # tr) = connections tr"
  "connections (Ev_Sleep t dd # tr) = connections tr"
  "connections (Ev_Recv rr # tr) = connections tr"
  "connections (Ev_Unmarshal bs # tr) = connections tr"
  "connections (Ev_Log m # tr) = connections tr"
  by (simp_all add: connections_def)

lemma received_ops_simps [simp]:
  "received_ops [] = []" "received_ops (tr @ tr') = received_ops tr @ received_ops tr'"
  "received_ops (Ev_Send h r ok # tr) = received_ops tr"
  "received_ops (Ev_Recv (RecvOp op) # tr) = op # received_ops tr"
  "received_ops (Ev_Recv RecvFailed # tr) = received_ops tr"
  "received_ops (Ev_Unmarshal bs # tr) = received_ops tr"
  "received_ops (Ev_Log m # tr) = received_ops tr"
  by (simp_all add: received_ops_def)

text \<open>
  What \<open>dial\<close> adds to the trace: no \<open>Send\<close>, one \<open>btree.New\<close> for each \<open>Watch\<close>
  that succeeded; and a stream obtained by a client that had none comes with \<open>btree.New\<close>
  as the last event and the empty tree.
\<close>

definition dial_adds ::
  "('s, 'e) EndpointsClient \<Rightarrow> ('s, 'e) EndpointsClient \<Rightarrow> 'r event list \<Rightarrow> bool" where
  "dial_adds epc epc' tr \<longleftrightarrow>
     requests tr = [] \<and> rebuilds tr = connections tr \<and>
     (watch epc = None \<longrightarrow> watch epc' \<noteq> None \<longrightarrow>
        tr \<noteq> [] \<and> last tr = Ev_BtreeNew \<and> data epc' = Some btree_New)"

lemma dial_trace:
  "dial (epc, w) = Returns (b, epc', w') \<Longrightarrow>
   \<exists>tr. trace w' = trace w @ tr \<and> dial_adds epc epc' tr"
proof (induction epc w rule: dial_induct')
  case (canceled epc w)
  then show ?case by (auto simp: dial_steps dial_adds_def)
next
  case (no_answer epc w)
  then show ?case by (simp add: dial_steps)
next
  case (DialCanceled epc w lat ds)
  then show ?case by (auto simp: dial_steps dial_adds_def world_defs)
next
  case (DialFailed epc w lat ds)
  from DialFailed.prems DialFailed.hyps
  have "\<exists>tr. trace w' = trace (errorSleep epc (klog ''failed to connect''
      (emit (Ev_Dial DialFailed) (elapse lat (w\<lparr>dials := ds\<rparr>))))) @ tr \<and> dial_adds epc epc' tr"
    by (intro DialFailed.IH) (simp add: dial_steps)
  then show ?case by (auto simp: dial_adds_def world_defs)
next
  case (Watch_no_answer epc w lat c ds)
  then show ?case by (simp add: dial_steps)
next
  case (WatchFailed epc w lat c ds lat' ws)
  from WatchFailed.prems WatchFailed.hyps
  have "\<exists>tr. trace w' = trace (errorSleep epc (klog ''failed to start watch'' (emit Ev_ConnClose
         (emit (Ev_Watch WatchFailed) (elapse lat'
           ((emit (Ev_Dial (DialOk c)) (elapse lat (w\<lparr>dials := ds\<rparr>)))\<lparr>watches := ws\<rparr>)))))) @ tr \<and>
     dial_adds (epc\<lparr>conn := Some c, watch := None\<rparr>) epc' tr"
    by (intro WatchFailed.IH) (simp add: dial_steps)
  then show ?case by (auto simp: dial_adds_def world_defs)
next
  case (WatchOk epc w lat c ds lat' h ws)
  then show ?case by (auto simp: dial_steps dial_adds_def world_defs)
qed

lemma postError_trace:
  "postError (epc, w) = Returns (epc', w') \<Longrightarrow>
   \<exists>tr. trace w' = trace w @ tr \<and> requests tr = [] \<and> rebuilds tr = connections tr \<and>
     (watch epc' \<noteq> None \<longrightarrow> tr \<noteq> [] \<and> last tr = Ev_BtreeNew \<and> data epc' = Some btree_New)"
  by (auto simp: postError.simps Let_def world_defs dial_adds_def
      split: option.splits if_splits outcome.splits dest!: dial_trace)

lemma loop_event_simps [simp]:
  "loop_event (Ev_Recv (RecvOp op))" "\<not> loop_event (Ev_Recv RecvFailed)"
  "loop_event (Ev_Unmarshal bs)" "loop_event (Ev_Log m)"
  "\<not> loop_event (Ev_Send h r ok)" "\<not> loop_event Ev_BtreeNew"
  by (simp_all add: loop_event_def)

lemma loop_events_quiet:
  "list_all loop_event tr \<Longrightarrow> requests tr = [] \<and> rebuilds tr = 0 \<and> connections tr = 0"
  by (induction tr)
     (auto simp: loop_event_def requests_def rebuilds_def connections_def
           split: event.splits RecvResult.splits)

lemma opBody_applied:
  "opBody c op (epc, w) = Returns (fl, epc', w') \<Longrightarrow>
   epc' = epc\<lparr>data := map_option (applied c op) (data epc)\<rparr> \<and>
   (\<exists>tr. trace w' = trace w @ tr \<and> list_all loop_event tr \<and> received_ops tr = [])"
  by (cases "data epc")
     (auto simp: opBody_def unmarshalAndStore_def Let_def world_defs applied_def decoded_def
      split: OpItem.splits Set_kind.splits option.splits)

lemma applyLoop_trace:
  "applyLoop c (epc, w) = Returns (b, epc', w') \<Longrightarrow>
   \<exists>tr. trace w' = trace w @ tr \<and> requests tr = [] \<and> rebuilds tr = 0 \<and> connections tr = 0 \<and>
     (b \<longrightarrow> list_all loop_event tr \<and>
            epc' = epc\<lparr>data := map_option (fold (applied c) (received_ops tr)) (data epc)\<rparr>)"
proof (induction epc w rule: applyLoop_induct'[where c = c])
  case (no_answer epc w)
  then show ?case by (simp add: applyLoop_steps)
next
  case (RecvFailed epc w lat rs)
  then show ?case by (auto simp: applyLoop_steps did_Recv_def world_defs)
next
  case (Panics epc w lat op rs)
  then show ?case by (simp add: applyLoop_steps)
next
  case (Break epc w lat op rs epc2 w2)
  from opBody_applied[OF Break.hyps(2)] obtain tr where
    tr: "epc2 = epc\<lparr>data := map_option (applied c op) (data epc)\<rparr>"
      "trace w2 = trace w @ Ev_Recv (RecvOp op) # tr" "list_all loop_event tr" "received_ops tr = []"
    by (auto simp: did_Recv_def world_defs)
  have "epc' = epc2" "w' = w2" "b"
    using Break by (simp_all add: applyLoop_steps)
  with tr loop_events_quiet[OF tr(3)] show ?case
    by (intro exI[of _ "Ev_Recv (RecvOp op) # tr"]) simp
next
  case (Continue epc w lat op rs epc2 w2)
  from opBody_applied[OF Continue.hyps(2)] obtain tr where
    tr: "epc2 = epc\<lparr>data := map_option (applied c op) (data epc)\<rparr>"
      "trace w2 = trace w @ Ev_Recv (RecvOp op) # tr" "list_all loop_event tr" "received_ops tr = []"
    by (auto simp: did_Recv_def world_defs)
  have "applyLoop c (epc2, w2) = Returns (b, epc', w')"
    using Continue by (simp add: applyLoop_steps)
  from Continue.IH[OF this] obtain tr' where
    tr': "trace w' = trace w2 @ tr'" "requests tr' = []" "rebuilds tr' = 0" "connections tr' = 0"
      "b \<longrightarrow> list_all loop_event tr' \<and>
         epc' = epc2\<lparr>data := map_option (fold (applied c) (received_ops tr')) (data epc2)\<rparr>"
    by blast
  show ?case
    using tr tr' loop_events_quiet[OF tr(3)]
    by (intro exI[of _ "Ev_Recv (RecvOp op) # tr @ tr'"])
       (auto simp: option.map_comp comp_def)
qed

lemma NextCh_retry_watch:
  "NextCh_retry c req (epc, w) = Returns ((ch, False), epc', w') \<Longrightarrow> watch epc \<noteq> None"
  by (cases "ctxErr w"; cases "watch epc")
     (auto simp: NextCh_retry_canceled NextCh_retry_nil_watch)

text \<open>
  The events that a call of \<open>NextCh\<close> adds when it completes a round: a prefix, then the
  \<open>Send\<close> that succeeded, then what the receive loop did up to \<open>Sync\<close>. A prefix that is
  not empty ends with \<open>btree.New\<close>.
\<close>

definition completes ::
  "('s, 'e) codec \<Rightarrow> 'r \<Rightarrow> ('s, 'e) EndpointsClient \<Rightarrow> ('s, 'e) EndpointsClient
     \<Rightarrow> 'r event list \<Rightarrow> bool" where
  "completes c req epc epc' new \<longleftrightarrow>
     (\<exists>pre h tr. new = pre @ Ev_Send h req True # tr \<and>
        list_all loop_event tr \<and> set (requests pre) \<subseteq> {req} \<and> rebuilds pre = connections pre \<and>
        (if pre = [] then data epc' = map_option (fold (applied c) (received_ops tr)) (data epc)
         else last pre = Ev_BtreeNew \<and>
              data epc' = Some (fold (applied c) (received_ops tr) btree_New)))"

lemma completes_after_reconnect:
  assumes "completes c req epc1 epc' new" 
    and "tr \<noteq> []" "last tr = Ev_BtreeNew" "data epc1 = Some btree_New"
    and "set (requests tr) \<subseteq> {req}" "rebuilds tr = connections tr"
  shows "completes c req epc epc' (tr @ new)"
proof -
  from assms(1) obtain pre h l where
    n: "new = pre @ Ev_Send h req True # l" "list_all loop_event l"
      "set (requests pre) \<subseteq> {req}" "rebuilds pre = connections pre"
      "if pre = [] then data epc' = map_option (fold (applied c) (received_ops l)) (data epc1)
       else last pre = Ev_BtreeNew \<and> data epc' = Some (fold (applied c) (received_ops l) btree_New)"
    unfolding completes_def by blast
  show ?thesis
    unfolding completes_def
    using n assms(2-)
    by (intro exI[of _ "tr @ pre"] exI[of _ h] exI[of _ l]) (auto split: if_splits)
qed

lemma NextCh_retry_trace:
  "NextCh_retry c req (epc, w) = Returns ((ch, False), epc', w') \<Longrightarrow>
   ch = Grouper (data epc') \<and>
   (\<exists>new. trace w' = trace w @ new \<and> completes c req epc epc' new)"
proof (induction epc w rule: NextCh_retry_induct'[where c = c and req = req])
  case (Sync epc w h lat ss epc2 w2)
  from applyLoop_trace[OF Sync.hyps(4)] obtain tr where
    tr: "trace w2 = trace w @ Ev_Send h req True # tr" "list_all loop_event tr"
      "epc2 = epc\<lparr>data := map_option (fold (applied c) (received_ops tr)) (data epc)\<rparr>"
    by (auto simp: did_Send_def world_defs)
  have r: "ch = Grouper (data epc2)" "epc' = epc2" "w' = w2"
    using Sync by (auto simp: NextCh_retry_steps)
  have "completes c req epc epc' (Ev_Send h req True # tr)"
    unfolding completes_def using tr r
    by (intro exI[of _ "[]"] exI[of _ h] exI[of _ tr]) simp
  with r tr show ?case by simp
next
  case (Send_failed_retry epc w h lat ss epc1 w1)
  have run: "NextCh_retry c req (epc1, w1) = Returns ((ch, False), epc', w')"
    using Send_failed_retry by (simp add: NextCh_retry_steps)
  from Send_failed_retry.IH[OF run] obtain new where
    new: "ch = Grouper (data epc')" "trace w' = trace w1 @ new" "completes c req epc1 epc' new"
    by blast
  from postError_trace[OF Send_failed_retry.hyps(4)] NextCh_retry_watch[OF run]
  obtain tr where
    tr: "trace w1 = trace w @ Ev_Send h req False # tr" "requests tr = []"
      "rebuilds tr = connections tr" "tr \<noteq> []" "last tr = Ev_BtreeNew" "data epc1 = Some btree_New"
    by (auto simp: did_Send_def world_defs)
  have "completes c req epc epc' ((Ev_Send h req False # tr) @ new)"
    using new(3) tr by (intro completes_after_reconnect) simp_all
  with new tr show ?case by simp
next
  case (Recv_failed_retry epc w h lat ss epc2 w2 epc1 w1)
  have run: "NextCh_retry c req (epc1, w1) = Returns ((ch, False), epc', w')"
    using Recv_failed_retry by (simp add: NextCh_retry_steps)
  from Recv_failed_retry.IH[OF run] obtain new where
    new: "ch = Grouper (data epc')" "trace w' = trace w1 @ new" "completes c req epc1 epc' new"
    by blast
  from applyLoop_trace[OF Recv_failed_retry.hyps(4)] obtain l where
    l: "trace w2 = trace w @ Ev_Send h req True # l" "requests l = []" "rebuilds l = 0"
      "connections l = 0"
    by (auto simp: did_Send_def world_defs)
  from postError_trace[OF Recv_failed_retry.hyps(5)] NextCh_retry_watch[OF run]
  obtain tr where
    tr: "trace w1 = trace w2 @ Ev_Log ''watch recv failed'' # tr" "requests tr = []"
      "rebuilds tr = connections tr" "tr \<noteq> []" "last tr = Ev_BtreeNew" "data epc1 = Some btree_New"
    by (auto simp: world_defs)
  have "completes c req epc epc' ((Ev_Send h req True # l @ Ev_Log ''watch recv failed'' # tr) @ new)"
    using new(3) tr l by (intro completes_after_reconnect) simp_all
  with new tr l show ?case by simp
qed (simp_all add: NextCh_retry_steps)

lemma ctxErr_emit [simp]: "ctxErr (emit a w) = ctxErr w"
  by (simp add: ctxErr_def emit_def split: option.splits)

lemma range_chan_append: "range_chan ch items = items @ ch"
  by (induction ch arbitrary: items) auto

lemma NextCh_retry_closed:
  "NextCh_retry c req (epc, w) = Returns ((ch, True), epc', w') \<Longrightarrow>
   ch = ([], Closed) \<and> ctxErr w'"
  by (induction epc w rule: NextCh_retry_induct'[where c = c and req = req])
     (auto simp: NextCh_retry_steps)

lemma NextCh_Grouper:
  "NextCh c req (epc, w) = Returns ((ch, False), epc', w') \<Longrightarrow> ch = Grouper (data epc')"
  by (auto simp: NextCh_def split: if_splits outcome.splits dest: NextCh_retry_trace)

definition transport_failure :: "'r event \<Rightarrow> bool" where
  "transport_failure a =
     (case a of Ev_Send h r ok \<Rightarrow> \<not> ok | Ev_Recv RecvFailed \<Rightarrow> True | _ \<Rightarrow> False)"

lemma loop_events_no_failure:
  "list_all loop_event tr \<Longrightarrow> \<not> list_ex transport_failure tr"
  by (induction tr)
     (auto simp: loop_event_def transport_failure_def split: event.splits RecvResult.splits)

section \<open>The grouping as the specification words it\<close>

text \<open>
  These definitions follow the specification, not the code. The services and the endpoints
  among a list of entries; an endpoint at path \<open>q\<close> is owned by the service at path \<open>p\<close>
  when \<open>q\<close> sorts strictly between \<open>p\<close> and the next service's path; \<open>grouped\<close> has one
  aggregate for each service, in the order of the entries, holding the endpoints it owns
  in the order of the entries.
\<close>

fun services :: "('k \<times> ('s, 'e) Message) list \<Rightarrow> ('k \<times> 's) list" where
  "services [] = []"
| "services ((p, Service_msg s) # t) = (p, s) # services t"
| "services ((p, Endpoint_msg e) # t) = services t"

fun endpoints :: "('k \<times> ('s, 'e) Message) list \<Rightarrow> ('k \<times> 'e) list" where
  "endpoints [] = []"
| "endpoints ((p, Service_msg s) # t) = endpoints t"
| "endpoints ((p, Endpoint_msg e) # t) = (p, e) # endpoints t"

definition owned :: "('k::linorder \<times> ('s, 'e) Message) list \<Rightarrow> 'k \<Rightarrow> 'k \<Rightarrow> bool" where
  "owned t p q \<longleftrightarrow> p < q \<and> (\<forall>x \<in> set (services t). p < fst x \<longrightarrow> q < fst x)"

definition grouped ::
  "('k::linorder \<times> ('s, 'e) Message) list \<Rightarrow> ('s, 'e) ServiceEndpoints list" where
  "grouped t =
     map (\<lambda>(p, s). \<lparr>Service = s,
                     Endpoints = map snd (filter (\<lambda>(q, e). owned t p q) (endpoints t))\<rparr>)
       (services t)"

text \<open>
  What the traversal does, read off \<open>ascendItems\<close>: the endpoints that lead a list of
  entries, and one aggregate for each service, holding the endpoints that lead the entries
  after it.
\<close>

fun leading :: "('k \<times> ('s, 'e) Message) list \<Rightarrow> 'e list" where
  "leading [] = []"
| "leading ((p, Service_msg s) # t) = []"
| "leading ((p, Endpoint_msg e) # t) = e # leading t"

fun segs :: "('k \<times> ('s, 'e) Message) list \<Rightarrow> ('s, 'e) ServiceEndpoints list" where
  "segs [] = []"
| "segs ((p, Service_msg s) # t) = \<lparr>Service = s, Endpoints = leading t\<rparr> # segs t"
| "segs ((p, Endpoint_msg e) # t) = segs t"

lemma ascendItems_Some:
  "ascendItems (Some a) t sent =
     (sent @ (a\<lparr>Endpoints := Endpoints a @ leading t\<rparr>) # segs t, Closed)"
  by (induction t arbitrary: a sent rule: segs.induct) simp_all

lemma ascendItems_None:
  "ascendItems None t [] =
     (case t of (p, Endpoint_msg e) # t' \<Rightarrow> ([], Panicked) | _ \<Rightarrow> (segs t, Closed))"
  by (cases t rule: segs.cases) (simp_all add: ascendItems_Some)

lemma services_mem: "(p, s) \<in> set (services t) \<Longrightarrow> (p, Service_msg s) \<in> set t"
  by (induction t rule: services.induct) auto

lemma endpoints_mem: "(q, e) \<in> set (endpoints t) \<Longrightarrow> (q, Endpoint_msg e) \<in> set t"
  by (induction t rule: endpoints.induct) auto

lemma services_above:
  "\<forall>x \<in> set t. p < fst x \<Longrightarrow> \<forall>x \<in> set (services t). p < fst x"
  by (force dest: services_mem)

lemma endpoints_above:
  "\<forall>x \<in> set t. p < fst x \<Longrightarrow> \<forall>x \<in> set (endpoints t). p < fst x"
  by (force dest: endpoints_mem)

lemma leading_owned:
  assumes "ascending t"
  shows "map snd (filter (\<lambda>(q, e). \<forall>x \<in> set (services t). q < fst x) (endpoints t)) = leading t"
  using assms
proof (induction t rule: segs.induct)
  case 1
  then show ?case by simp
next
  case (2 p1 s t)
  have "\<forall>x \<in> set (endpoints t). p1 < fst x"
    using "2.prems"(1) by (intro endpoints_above) (simp add: ascending_def)
  then have "filter (\<lambda>(q, e). \<forall>x \<in> set (services ((p1, Service_msg s) # t)). q < fst x)
      (endpoints t) = []"
    by (auto simp: filter_empty_conv)
  then show ?case by simp
next
  case (3 q0 e t)
  have a: "ascending t" "\<forall>x \<in> set t. q0 < fst x"
    using "3.prems"(1) by (simp_all add: ascending_def)
  have "\<forall>x \<in> set (services t). q0 < fst x"
    using a(2) by (rule services_above)
  with "3.IH"[OF a(1)] show ?case by simp
qed

lemma segs_grouped:
  "ascending t \<Longrightarrow> segs t = grouped t"
proof (induction t rule: segs.induct)
  case 1
  then show ?case by (simp add: grouped_def)
next
  case (2 p0 s0 t)
  have a: "ascending t" "\<forall>x \<in> set t. p0 < fst x"
    using "2.prems" by (simp_all add: ascending_def)
  have sk: "\<forall>x \<in> set (services t). p0 < fst x"
    using a(2) by (rule services_above)
  have ek: "\<forall>x \<in> set (endpoints t). p0 < fst x"
    using a(2) by (rule endpoints_above)
  have own0: "owned ((p0, Service_msg s0) # t) p0 (fst y) \<longleftrightarrow>
      (\<forall>x \<in> set (services t). fst y < fst x)"
    if "y \<in> set (endpoints t)" for y
    using that sk ek by (auto simp: owned_def)
  have own: "owned ((p0, Service_msg s0) # t) (fst z) q \<longleftrightarrow> owned t (fst z) q"
    if "z \<in> set (services t)" for z q
    using that sk by (auto simp: owned_def)
  have first: "map snd (filter (\<lambda>(q, e). owned ((p0, Service_msg s0) # t) p0 q) (endpoints t)) =
      leading t"
  proof -
    have "filter (\<lambda>(q, e). owned ((p0, Service_msg s0) # t) p0 q) (endpoints t) =
        filter (\<lambda>(q, e). \<forall>x \<in> set (services t). q < fst x) (endpoints t)"
      using own0 by (intro filter_cong) (auto simp: split_def)
    then show ?thesis using leading_owned[OF a(1)] by simp
  qed
  have rest: "map (\<lambda>(p, s). \<lparr>Service = s, Endpoints = map snd
        (filter (\<lambda>(q, e). owned ((p0, Service_msg s0) # t) p q) (endpoints t))\<rparr>) (services t) =
      grouped t"
    unfolding grouped_def
    using own by (intro map_cong) (auto simp: split_def)
  show ?case
    using "2.IH"[OF a(1)] first rest by (simp add: grouped_def)
next
  case (3 q0 e0 t)
  have a: "ascending t" "\<forall>x \<in> set t. q0 < fst x"
    using "3.prems" by (simp_all add: ascending_def)
  have sk: "\<forall>x \<in> set (services t). q0 < fst x"
    using a(2) by (rule services_above)
  have "map (\<lambda>(p, s). \<lparr>Service = s, Endpoints = map snd
        (filter (\<lambda>(q, e). owned ((q0, Endpoint_msg e0) # t) p q) ((q0, e0) # endpoints t))\<rparr>)
        (services t) = grouped t"
    unfolding grouped_def
    using sk by (intro map_cong) (auto simp: owned_def split_def)
  with "3.IH"[OF a(1)] show ?case by (simp add: grouped_def)
qed

text \<open>
  Again from the specification: the entry that survives at a path is what the latest applied
  operation on that path left (the latest \<open>Set\<close> that decoded wins, a later \<open>Delete\<close>
  removes it); \<open>survivor\<close> reads the operations from the latest to the earliest. The
  surviving entries are listed in ascending order of path.
\<close>

fun survivor :: "('s, 'e) codec \<Rightarrow> path \<Rightarrow> OpItem list \<Rightarrow> ('s, 'e) Message option" where
  "survivor c p [] = None"
| "survivor c p (OpItem_Set None bs # earlier) = survivor c p earlier"
| "survivor c p (OpItem_Set (Some ref) bs # earlier) =
     (if Path ref = p
      then (case decoded c ref bs of None \<Rightarrow> survivor c p earlier | Some v \<Rightarrow> Some v)
      else survivor c p earlier)"
| "survivor c p (OpItem_Delete q # earlier) = (if q = p then None else survivor c p earlier)"
| "survivor c p (OpItem_Sync # earlier) = survivor c p earlier"
| "survivor c p (OpItem_nil # earlier) = survivor c p earlier"

definition surviving :: "('s, 'e) codec \<Rightarrow> OpItem list \<Rightarrow> path \<Rightarrow> ('s, 'e) Message option" where
  "surviving c ops p = survivor c p (rev ops)"

definition paths_of :: "OpItem list \<Rightarrow> path list" where
  "paths_of ops = concat (map (\<lambda>op. case op of OpItem_Set (Some ref) bs \<Rightarrow> [Path ref] | _ \<Rightarrow> []) ops)"

definition spec_entries ::
  "('s, 'e) codec \<Rightarrow> OpItem list \<Rightarrow> (path \<times> ('s, 'e) Message) list" where
  "spec_entries c ops =
     List.map_filter (\<lambda>p. map_option (Pair p) (surviving c ops p)) (sort (remdups (paths_of ops)))"

definition spec_aggregates ::
  "('s, 'e) codec \<Rightarrow> OpItem list \<Rightarrow> ('s, 'e) ServiceEndpoints list" where
  "spec_aggregates c ops = grouped (spec_entries c ops)"

lemma applied_simps:
  "applied c (OpItem_Set None bs) t = t"
  "applied c (OpItem_Set (Some ref) bs) t =
     (case decoded c ref bs of None \<Rightarrow> t | Some v \<Rightarrow> ReplaceOrInsert (Path ref) v t)"
  "applied c (OpItem_Delete q) t = btree_Delete q t"
  "applied c OpItem_Sync t = t"
  "applied c OpItem_nil t = t"
  by (simp_all add: applied_def)

lemma ascending_applied: "ascending t \<Longrightarrow> ascending (applied c op t)"
  by (auto simp: applied_def ascending_ReplaceOrInsert ascending_btree_Delete
      split: OpItem.splits option.splits)

lemma ascending_fold_applied: "ascending t \<Longrightarrow> ascending (fold (applied c) ops t)"
  by (induction ops arbitrary: t) (simp_all add: ascending_applied)

lemma map_of_fold_applied:
  "map_of (fold (applied c) ops []) p = surviving c ops p"
proof (induction ops rule: rev_induct)
  case Nil
  then show ?case by (simp add: surviving_def)
next
  case (snoc op ops)
  have a: "ascending (fold (applied c) ops [])"
    by (rule ascending_fold_applied) (simp add: ascending_def)
  show ?case
  proof (cases op)
    case (OpItem_Set ref bs)
    with snoc a show ?thesis
      by (cases ref)
         (auto simp: surviving_def applied_simps map_of_ReplaceOrInsert split: option.splits)
  next
    case (OpItem_Delete q)
    with snoc a show ?thesis
      by (auto simp: surviving_def applied_simps map_of_btree_Delete)
  next
    case OpItem_Sync
    with snoc show ?thesis by (simp add: surviving_def applied_simps)
  next
    case OpItem_nil
    with snoc show ?thesis by (simp add: surviving_def applied_simps)
  qed
qed

lemma survivor_path: "survivor c p l = Some v \<Longrightarrow> p \<in> set (paths_of l)"
  by (induction c p l rule: survivor.induct)
     (auto simp: paths_of_def split: if_splits option.splits)

lemma surviving_path: "surviving c ops p = Some v \<Longrightarrow> p \<in> set (paths_of ops)"
  by (auto simp: surviving_def dest!: survivor_path) (auto simp: paths_of_def)

lemma ascending_unique:
  "ascending t \<Longrightarrow> ascending t' \<Longrightarrow> map_of t = map_of t' \<Longrightarrow> t = t'"
proof (induction t arbitrary: t')
  case Nil
  from Nil.prems(3) have "map_of t' = Map.empty" by simp
  then show ?case by simp
next
  case (Cons a t)
  obtain k v where a: "a = (k, v)" by (cases a)
  have "dom (map_of (a # t)) = dom (map_of t')"
    by (rule arg_cong[OF Cons.prems(3)])
  then have keys: "set (map fst (a # t)) = set (map fst t')"
    unfolding dom_map_of_conv_image_fst by simp
  have s1: "sorted (map fst (a # t))" "distinct (map fst (a # t))"
    using Cons.prems(1) unfolding ascending_def strict_sorted_iff by simp_all
  have s2: "sorted (map fst t')" "distinct (map fst t')"
    using Cons.prems(2) unfolding ascending_def strict_sorted_iff by simp_all
  have m: "map fst (a # t) = map fst t'"
    using s1(1) s1(2) s2(1) s2(2) keys by (rule sorted_distinct_set_unique)
  then obtain b t'' where t': "t' = b # t''"
    by (cases t') simp_all
  obtain k' v' where b: "b = (k', v')" by (cases b)
  have kk: "k' = k" and mt: "map fst t = map fst t''"
    using m a t' b by simp_all
  have nk: "k \<notin> set (map fst t)" "k \<notin> set (map fst t'')"
    using s1(2) s2(2) a t' b kk by simp_all
  have "map_of (a # t) k = map_of t' k"
    by (rule fun_cong[OF Cons.prems(3)])
  then have vv: "v' = v"
    using a t' b kk by simp
  have "map_of t p = map_of t'' p" for p
  proof (cases "p = k")
    case True
    have "map_of t k = None" "map_of t'' k = None"
      using nk by (simp_all add: map_of_eq_None_iff)
    with True show ?thesis by simp
  next
    case False
    have "map_of (a # t) p = map_of t' p"
      by (rule fun_cong[OF Cons.prems(3)])
    with False show ?thesis
      using a t' b kk by simp
  qed
  then have e: "map_of t = map_of t''" by (rule ext)
  have "ascending t" "ascending t''"
    using Cons.prems(1,2) t' unfolding ascending_def by simp_all
  then have "t = t''" using e by (rule Cons.IH)
  with a t' b kk vv show ?case by simp
qed

lemma map_filter_keys:
  "map fst (List.map_filter (\<lambda>p. map_option (Pair p) (m p)) ps) = filter (\<lambda>p. m p \<noteq> None) ps"
  by (induction ps) (auto simp: List.map_filter_simps split: option.splits)

lemma map_of_map_filter:
  "map_of (List.map_filter (\<lambda>p. map_option (Pair p) (m p)) ps) p =
     (if p \<in> set ps then m p else None)"
  by (induction ps) (auto simp: List.map_filter_simps split: option.splits)

lemma ascending_spec_entries: "ascending (spec_entries c ops)"
  unfolding ascending_def spec_entries_def map_filter_keys
  by (intro sorted_wrt_filter) (simp add: strict_sorted_iff)

lemma map_of_spec_entries: "map_of (spec_entries c ops) p = surviving c ops p"
  unfolding spec_entries_def map_of_map_filter
  by (cases "surviving c ops p") (auto dest: surviving_path)

lemma fold_applied_spec_entries:
  "fold (applied c) ops btree_New = spec_entries c ops"
proof (rule ascending_unique)
  show "ascending (fold (applied c) ops btree_New)"
    by (rule ascending_fold_applied) (simp add: ascending_def btree_New_def)
  show "ascending (spec_entries c ops)"
    by (rule ascending_spec_entries)
  show "map_of (fold (applied c) ops btree_New) = map_of (spec_entries c ops)"
    by (rule ext) (simp add: map_of_fold_applied map_of_spec_entries btree_New_def)
qed

lemma Grouper_spec:
  "Grouper (Some (fold (applied c) ops btree_New)) =
     (case spec_entries c ops of
        (p, Endpoint_msg e) # t \<Rightarrow> ([], Panicked)
      | _ \<Rightarrow> (spec_aggregates c ops, Closed))"
  unfolding Grouper_def fold_applied_spec_entries spec_aggregates_def
  using segs_grouped[OF ascending_spec_entries, of c ops]
  by (auto simp: ascendItems_None split: list.splits prod.splits Message.splits)

text \<open>
  A round that completes on a tree that began empty: the channel is what the specification
  asks for from the operations received since the last \<open>btree.New\<close>, unless the first
  surviving entry is an endpoint.
\<close>

lemma NextCh_completes:
  assumes "NextCh c req (epc, w) = Returns ((ch, False), epc', w')"
  shows "ch = Grouper (data epc') \<and>
    (\<exists>new. trace w' = trace w @ new \<and> completes c req epc epc' new)"
proof (cases "watch epc")
  case (Some h)
  with assms have "NextCh_retry c req (epc, w) = Returns ((ch, False), epc', w')"
    by (simp add: NextCh_def)
  then show ?thesis by (rule NextCh_retry_trace)
next
  case None
  with assms obtain b epc1 w1 where
    d: "dial (epc, w) = Returns (b, epc1, w1)"
    and run: "NextCh_retry c req (epc1, w1) = Returns ((ch, False), epc', w')"
    by (auto simp: NextCh_def split: outcome.splits)
  from NextCh_retry_trace[OF run] obtain new where
    new: "ch = Grouper (data epc')" "trace w' = trace w1 @ new" "completes c req epc1 epc' new"
    by blast
  from dial_trace[OF d] None NextCh_retry_watch[OF run] obtain tr where
    tr: "trace w1 = trace w @ tr" "requests tr = []" "rebuilds tr = connections tr"
      "tr \<noteq> []" "last tr = Ev_BtreeNew" "data epc1 = Some btree_New"
    by (auto simp: dial_adds_def)
  have "completes c req epc epc' (tr @ new)"
    using new(3) tr by (intro completes_after_reconnect) simp_all
  with new tr show ?thesis by simp
qed

lemma round_grouping:
  assumes "NextCh c req (epc, w) = Returns ((ch, False), epc', w')"
    and "watch epc = None \<or> data epc = Some btree_New"
  shows "\<exists>pre h tr. trace w' = trace w @ pre @ Ev_Send h req True # tr \<and>
           ch = (case spec_entries c (received_ops tr) of
                   (p, Endpoint_msg e) # t \<Rightarrow> ([], Panicked)
                 | _ \<Rightarrow> (spec_aggregates c (received_ops tr), Closed))"
proof -
  from NextCh_completes[OF assms(1)] obtain pre h tr where
    r: "ch = Grouper (data epc')" "trace w' = trace w @ pre @ Ev_Send h req True # tr"
      "if pre = [] then data epc' = map_option (fold (applied c) (received_ops tr)) (data epc)
       else last pre = Ev_BtreeNew \<and> data epc' = Some (fold (applied c) (received_ops tr) btree_New)"
    unfolding completes_def by auto
  have w: "watch epc \<noteq> None" if "pre = []"
  proof
    assume n: "watch epc = None"
    with assms(1) obtain b epc1 w1 where
      d: "dial (epc, w) = Returns (b, epc1, w1)"
      and run: "NextCh_retry c req (epc1, w1) = Returns ((ch, False), epc', w')"
      by (auto simp: NextCh_def split: outcome.splits)
    from dial_trace[OF d] n NextCh_retry_watch[OF run] obtain tr0 where
      t0: "trace w1 = trace w @ tr0" "tr0 \<noteq> []" "last tr0 = Ev_BtreeNew"
      by (auto simp: dial_adds_def)
    from NextCh_retry_trace[OF run] obtain new where
      new: "trace w' = trace w1 @ new" "completes c req epc1 epc' new"
      by blast
    from new(2) obtain pre1 h1 l1 where
      n1: "new = pre1 @ Ev_Send h1 req True # l1" "list_all loop_event l1"
      unfolding completes_def by blast
    have "tr0 @ pre1 @ Ev_Send h1 req True # l1 = Ev_Send h req True # tr"
      using r(2) t0(1) new(1) n1(1) that by simp
    then have "hd tr0 = Ev_Send h req True"
      using t0(2) by (cases tr0) simp_all
    moreover have "requests tr0 = []"
      using dial_trace[OF d] t0(1) by (auto simp: dial_adds_def)
    ultimately show False
      using t0(2) by (cases tr0) simp_all
  qed
  have "data epc' = Some (fold (applied c) (received_ops tr) btree_New)"
    using r(3) assms(2) w by (auto split: if_splits)
  with r(1) have "ch = Grouper (Some (fold (applied c) (received_ops tr) btree_New))"
    by simp
  with r(2) show ?thesis unfolding Grouper_spec by blast
qed

section \<open>Examples\<close>

text \<open>
  A decoder that rejects the empty payload and returns any other payload as the message; a
  world in which every call answers at once and nobody cancels; a connected client.
\<close>

definition example_codec :: "(bytes, bytes) codec" where
  "example_codec =
     \<lparr>unmarshalService = (\<lambda>b. if b = [] then None else Some b),
      unmarshalEndpoint = (\<lambda>b. if b = [] then None else Some b)\<rparr>"

definition example_world :: "(nat \<times> RecvResult) list \<Rightarrow> nat world" where
  "example_world rs =
     \<lparr>clock = 0, cancelAt = None, dials = [(0, DialOk 1)], watches = [(0, WatchOk 1)],
      sends = [(0, True)], recvs = rs, trace = []\<rparr>"

definition example_client :: "(path, (bytes, bytes) Message) btree \<Rightarrow> (bytes, bytes) EndpointsClient" where
  "example_client t = \<lparr>ErrorDelay = 1, conn = Some 0, watch = Some 0, data = Some t\<rparr>"

lemmas eval_defs = Next_def NextCh_def New_def dial.simps NextCh_retry.simps applyLoop.simps
     postError.simps
     Dial_def DialContext_def Watch_def ctxErr_def world_defs Send_def Recv_def opBody_def unmarshalAndStore_def
     btree_New_def Grouper_def example_codec_def example_world_def example_client_def did_Send_def did_Recv_def

definition example_Set :: "Set_kind \<Rightarrow> path \<Rightarrow> bytes \<Rightarrow> RecvResult" where
  "example_Set k p bs = RecvOp (OpItem_Set (Some \<lparr>Set = k, Path = p\<rparr>) bs)"

definition canceled_world :: "nat world" where
  "canceled_world =
     \<lparr>clock = 3, cancelAt = Some 2, dials = [(0, DialOk 1)], watches = [(0, WatchOk 1)],
      sends = [(0, True)], recvs = [(0, RecvOp OpItem_Sync)], trace = []\<rparr>"

definition failing_world :: "nat option \<Rightarrow> (nat \<times> DialResult) list \<Rightarrow> (nat \<times> WatchResult) list \<Rightarrow> nat world" where
  "failing_world cancel ds ws =
     \<lparr>clock = 0, cancelAt = cancel, dials = ds, watches = ws, sends = [], recvs = [], trace = []\<rparr>"

definition flaky_world :: "nat world" where
  "flaky_world =
     \<lparr>clock = 0, cancelAt = None, dials = [(0, DialOk 1)], watches = [(0, WatchOk 1)],
      sends = [(0, True), (0, True)],
      recvs = [(0, example_Set Set_ServicesSet ''ns/a'' [1]), (0, RecvFailed),
               (0, example_Set Set_ServicesSet ''ns/b'' [2]), (0, RecvOp OpItem_Sync)],
      trace = []\<rparr>"

definition flaky_trace :: "nat event list" where
  "flaky_trace =
     [Ev_Send 0 7 True, Ev_Recv (example_Set Set_ServicesSet ''ns/a'' [1]), Ev_Unmarshal [1],
      Ev_Recv RecvFailed, Ev_Log ''watch recv failed'', Ev_CloseSend, Ev_ConnClose, Ev_Sleep 0 1,
      Ev_Dial (DialOk 1), Ev_Watch (WatchOk 1), Ev_BtreeNew, Ev_Send 1 7 True,
      Ev_Recv (example_Set Set_ServicesSet ''ns/b'' [2]), Ev_Unmarshal [2],
      Ev_Recv (RecvOp OpItem_Sync)]"

definition orphan_ops :: "RecvResult list" where
  "orphan_ops =
     [example_Set Set_EndpointsSet ''ns/a/ep'' [1], example_Set Set_ServicesSet ''ns/b'' [2],
      RecvOp OpItem_Sync]"

definition scenario_A :: "RecvResult list" where
  "scenario_A =
     [example_Set Set_ServicesSet ''ns/svc'' [5], example_Set Set_EndpointsSet ''ns/svc/ep1'' [1],
      example_Set Set_EndpointsSet ''ns/svc/ep2'' [2], RecvOp OpItem_Sync]"

section \<open>Claims\<close>

subsection \<open>An endpoint before any service\<close>

lemma ascendItems_orphan:
  "ascendItems None ((k, Endpoint_msg e) # t) sent = (sent, Panicked)"
  by simp

text \<open>
  Claim C1. The claim: an endpoint visited while there is no current aggregate is dropped
  without error, and \<open>Set(Endpoint, "ns/svc/ep1", E1)\<close> followed by \<open>Sync\<close> gives the empty
  list. The code: the callback reads \<open>seps.Endpoints\<close> while \<open>seps\<close> is nil, the goroutine
  panics before it sends anything, and \<open>Next\<close> never returns a list.
\<close>

theorem orphan_endpoint_panics:
  "Grouper (Some [(''ns/svc/ep1'', Endpoint_msg E1)]) = ([], Panicked) \<and>
   Next example_codec (0::nat)
     (New 1, example_world
        [(0, RecvOp (OpItem_Set (Some \<lparr>Set = Set_EndpointsSet, Path = ''ns/svc/ep1''\<rparr>) [1])),
         (0, RecvOp OpItem_Sync)]) = Panics"
  by (simp add: eval_defs)

subsection \<open>Grouping\<close>

text \<open>Scenario A of the specification: a service and its two endpoints.\<close>

lemma scenario_A_grouped:
  "Next example_codec (0::nat) (New 1, example_world (map (Pair 0) scenario_A)) =
     Returns (([\<lparr>Service = [5], Endpoints = [[1], [2]]\<rparr>], False),
       \<lparr>ErrorDelay = 1, conn = Some 1, watch = Some 1,
        data = Some [(''ns/svc'', Service_msg [5]), (''ns/svc/ep1'', Endpoint_msg [1]),
                     (''ns/svc/ep2'', Endpoint_msg [2])]\<rparr>,
       \<lparr>clock = 0, cancelAt = None, dials = [], watches = [], sends = [], recvs = [],
        trace = [Ev_Dial (DialOk 1), Ev_Watch (WatchOk 1), Ev_BtreeNew, Ev_Send 1 0 True,
          Ev_Recv (example_Set Set_ServicesSet ''ns/svc'' [5]), Ev_Unmarshal [5],
          Ev_Recv (example_Set Set_EndpointsSet ''ns/svc/ep1'' [1]), Ev_Unmarshal [1],
          Ev_Recv (example_Set Set_EndpointsSet ''ns/svc/ep2'' [2]), Ev_Unmarshal [2],
          Ev_Recv (RecvOp OpItem_Sync)]\<rparr>)"
  by (simp add: eval_defs scenario_A_def example_Set_def)

text \<open>
  Claim C2. The claim: for every sequence of operations ending in \<open>Sync\<close> the emitted list
  has one aggregate for each surviving service. The code: when the first surviving entry
  is an endpoint the goroutine panics before it sends anything (the defect of claim C1).
  For an endpoint at \<open>ns/a/ep\<close> and a service at \<open>ns/b\<close> the claim asks for the one
  aggregate of that service with no endpoints, and \<open>Next\<close> does not return. Lemmas
  \<open>Grouper_spec\<close> and \<open>round_grouping\<close> show that this is the only divergence.
\<close>

theorem orphan_endpoint_before_service:
  "Next example_codec (0::nat) (New 1, example_world (map (Pair 0) orphan_ops)) = Panics \<and>
   Grouper (Some [(''ns/a/ep'', Endpoint_msg [1::8 word]), (''ns/b'', Service_msg [2::8 word])]) =
     ([], Panicked) \<and>
   spec_aggregates example_codec
     [OpItem_Set (Some \<lparr>Set = Set_EndpointsSet, Path = ''ns/a/ep''\<rparr>) [1],
      OpItem_Set (Some \<lparr>Set = Set_ServicesSet, Path = ''ns/b''\<rparr>) [2]] =
     [\<lparr>Service = [2], Endpoints = []\<rparr>]"
proof (intro conjI)
  show "Next example_codec (0::nat) (New 1, example_world (map (Pair 0) orphan_ops)) = Panics"
    by (simp add: eval_defs orphan_ops_def example_Set_def)
  show "Grouper (Some [(''ns/a/ep'', Endpoint_msg [1::8 word]), (''ns/b'', Service_msg [2::8 word])]) =
     ([], Panicked)"
    by (simp add: Grouper_def)
  show "spec_aggregates example_codec
     [OpItem_Set (Some \<lparr>Set = Set_EndpointsSet, Path = ''ns/a/ep''\<rparr>) [1],
      OpItem_Set (Some \<lparr>Set = Set_ServicesSet, Path = ''ns/b''\<rparr>) [2]] =
     [\<lparr>Service = [2], Endpoints = []\<rparr>]"
    by (simp add: spec_aggregates_def spec_entries_def paths_of_def surviving_def decoded_def
        example_codec_def grouped_def owned_def List.map_filter_simps)
qed

subsection \<open>Sync\<close>

text \<open>
  Claim C6. Receiving \<open>Sync\<close> ends the receive loop and leaves the client, and with it the
  tree, as it was. A round that receives \<open>Sync\<close> alone on a tree just made by \<open>btree.New\<close>
  gives the empty list of aggregates, through \<open>NextCh\<close> and through \<open>Next\<close>.
\<close>

theorem Sync_leaves_store:
  "(recvs w = (lat, RecvOp OpItem_Sync) # rs \<longrightarrow>
      applyLoop c (epc, w) = Returns (True, epc, did_Recv lat (RecvOp OpItem_Sync) rs w)) \<and>
   (\<not> ctxErr w \<and> watch epc = Some h \<and> data epc = Some btree_New \<and>
    sends w = (lat', True) # ss \<and> recvs w = (lat, RecvOp OpItem_Sync) # rs \<longrightarrow>
      NextCh c req (epc, w) =
        Returns ((([], Closed), False), epc,
          did_Recv lat (RecvOp OpItem_Sync) rs (did_Send lat' h req True ss w)) \<and>
      Next c req (epc, w) =
        Returns (([], False), epc,
          did_Recv lat (RecvOp OpItem_Sync) rs (did_Send lat' h req True ss w)))"
proof -
  have a: "applyLoop c (epc, w) = Returns (True, epc, did_Recv lat (RecvOp OpItem_Sync) rs w)"
    if "recvs w = (lat, RecvOp OpItem_Sync) # rs" for w
    using that by (simp add: applyLoop_RecvOp opBody_def)
  have b: "NextCh c req (epc, w) =
        Returns ((([], Closed), False), epc,
          did_Recv lat (RecvOp OpItem_Sync) rs (did_Send lat' h req True ss w))"
    if "\<not> ctxErr w" "watch epc = Some h" "data epc = Some btree_New"
       "sends w = (lat', True) # ss" "recvs w = (lat, RecvOp OpItem_Sync) # rs"
  proof -
    have "recvs (did_Send lat' h req True ss w) = (lat, RecvOp OpItem_Sync) # rs"
      using that by (simp add: did_Send_def world_defs)
    then show ?thesis
      using that by (simp add: NextCh_def NextCh_retry_Send_ok a Grouper_def btree_New_def)
  qed
  show ?thesis using a b by (auto simp: Next_def)
qed

theorem Sync_leaves_store_witness:
  "applyLoop example_codec (example_client [(''ns/svc'', Service_msg [1])],
       example_world [(0, RecvOp OpItem_Sync)]) =
     Returns (True, example_client [(''ns/svc'', Service_msg [1])],
       did_Recv 0 (RecvOp OpItem_Sync) [] (example_world [(0, RecvOp OpItem_Sync)])) \<and>
   Next example_codec (7::nat) (example_client [], example_world [(0, RecvOp OpItem_Sync)]) =
     Returns (([], False), example_client [],
       did_Recv 0 (RecvOp OpItem_Sync) []
         (did_Send 0 0 7 True [] (example_world [(0, RecvOp OpItem_Sync)])))"
  using Sync_leaves_store [of "example_world [(0, RecvOp OpItem_Sync)]" 0 "[]" example_codec
      "example_client [(''ns/svc'', Service_msg [1])]" 0 0 "[]" 7]
    Sync_leaves_store [of "example_world [(0, RecvOp OpItem_Sync)]" 0 "[]" example_codec
      "example_client []" 0 0 "[]" 7]
  by (simp add: example_world_def example_client_def ctxErr_def btree_New_def)

subsection \<open>Set\<close>

text \<open>
  What the body of the loop does with a \<open>Set\<close> that carries its \<open>Ref\<close>. A kind that is
  neither \<open>ServicesSet\<close> nor \<open>EndpointsSet\<close>: nothing is decoded, nothing changes, the loop
  is asked to go on. A payload that does not decode: the attempt and the log line are the
  only effects, the client is unchanged, the loop is asked to go on. A payload that
  decodes: the message is put at the operation's path.
\<close>

lemma Set_with_Ref:
  "(\<forall>n. Set r = Set_other n \<longrightarrow>
      opBody c (OpItem_Set (Some r) bs) (epc, w) = Returns (Continue, epc, w)) \<and>
   (Set r = Set_ServicesSet \<and> unmarshalService c bs = None \<or>
    Set r = Set_EndpointsSet \<and> unmarshalEndpoint c bs = None \<longrightarrow>
      opBody c (OpItem_Set (Some r) bs) (epc, w) =
        Returns (Continue, epc, klog ''failed to parse value'' (emit (Ev_Unmarshal bs) w))) \<and>
   (\<forall>v t. data epc = Some t \<and>
      (Set r = Set_ServicesSet \<and> map_option Service_msg (unmarshalService c bs) = Some v \<or>
       Set r = Set_EndpointsSet \<and> map_option Endpoint_msg (unmarshalEndpoint c bs) = Some v) \<longrightarrow>
      opBody c (OpItem_Set (Some r) bs) (epc, w) =
        Returns (Continue, epc\<lparr>data := Some (ReplaceOrInsert (Path r) v t)\<rparr>,
          emit (Ev_Unmarshal bs) w) \<and>
      map_of (ReplaceOrInsert (Path r) v t) (Path r) = Some v)"
  by (auto simp: opBody_def unmarshalAndStore_def map_of_ReplaceOrInsert)

text \<open>
  The three of them in one round, then \<open>Sync\<close>: the loop ends with the one message that
  decoded in the tree, and the trace shows one decoding attempt for each of the two known
  kinds, none for the unknown one, and the log line.
\<close>

lemma Set_with_Ref_round:
  "applyLoop example_codec
     (example_client [],
      example_world [(0, example_Set (Set_other 7) ''ns/x'' [1]),
                     (0, example_Set Set_EndpointsSet ''ns/svc/ep'' []),
                     (0, example_Set Set_ServicesSet ''ns/svc'' [1]),
                     (0, RecvOp OpItem_Sync)]) =
     Returns (True, example_client [(''ns/svc'', Service_msg [1])],
       \<lparr>clock = 0, cancelAt = None, dials = [(0, DialOk 1)], watches = [(0, WatchOk 1)],
        sends = [(0, True)], recvs = [],
        trace = [Ev_Recv (example_Set (Set_other 7) ''ns/x'' [1]),
                 Ev_Recv (example_Set Set_EndpointsSet ''ns/svc/ep'' []), Ev_Unmarshal [],
                 Ev_Log ''failed to parse value'',
                 Ev_Recv (example_Set Set_ServicesSet ''ns/svc'' [1]), Ev_Unmarshal [1],
                 Ev_Recv (RecvOp OpItem_Sync)]\<rparr>)"
  by (simp add: eval_defs example_Set_def)

text \<open>
  Claim C7. The claim: every \<open>Set\<close> whose kind is not known, and every \<open>Set\<close> whose payload
  does not decode, is dropped and the receive loop goes on. The code: a \<open>Set\<close> that comes
  without its \<open>Ref\<close> has no known kind and nothing of it is decoded, and the \<open>switch\<close> on
  \<open>set.Ref.Set\<close> dereferences the nil pointer: the body of the loop panics, whatever the
  payload, the client and the world are, and neither \<open>NextCh\<close> nor \<open>Next\<close> returns. For
  a \<open>Set\<close> that carries its \<open>Ref\<close> the code does what the claim says (lemma
  \<open>Set_with_Ref\<close>).
\<close>

theorem Set_without_Ref_panics:
  "opBody c (OpItem_Set None bs) (epc, w) = Panics \<and>
   applyLoop example_codec
     (example_client [], example_world [(0, RecvOp (OpItem_Set None [])), (0, RecvOp OpItem_Sync)]) =
     Panics \<and>
   NextCh example_codec (0::nat)
     (example_client [], example_world [(0, RecvOp (OpItem_Set None [])), (0, RecvOp OpItem_Sync)]) =
     Panics \<and>
   Next example_codec (0::nat)
     (example_client [], example_world [(0, RecvOp (OpItem_Set None [])), (0, RecvOp OpItem_Sync)]) =
     Panics"
  by (simp add: eval_defs)

text \<open>
  Claim C8. \<open>ReplaceOrInsert\<close> of the same path and value twice is \<open>ReplaceOrInsert\<close>
  once. On a tree whose paths ascend it keeps them ascending, hence distinct, it maps the
  path to the value and leaves every other path alone, and it adds an entry only when the
  path was not there. The same \<open>Set\<close> operation handled again from the state that the first
  handling left gives the same client again (the world differs by the events emitted
  again). Every tree that \<open>NextCh\<close> leaves has ascending paths when the tree it found had.
\<close>

theorem Set_twice:
  "ReplaceOrInsert p v (ReplaceOrInsert p v t) = ReplaceOrInsert p v t \<and>
   (ascending t \<longrightarrow>
      ascending (ReplaceOrInsert p v t) \<and> distinct (map fst (ReplaceOrInsert p v t)) \<and>
      map_of (ReplaceOrInsert p v t) = (map_of t)(p \<mapsto> v) \<and>
      length (ReplaceOrInsert p v t) = (if p \<in> fst ` set t then length t else Suc (length t))) \<and>
   (opBody c (OpItem_Set ref bs) (epc, w) = Returns (fl, epc1, w1) \<longrightarrow>
      opBody c (OpItem_Set ref bs) (epc1, w1) =
        Returns (fl, epc1, w1\<lparr>trace := trace w1 @ drop (length (trace w)) (trace w1)\<rparr>)) \<and>
   (tree_ok epc \<and> NextCh c req (epc, w) = Returns (r, epc', w') \<longrightarrow> tree_ok epc')"
proof (intro conjI impI)
  show "ReplaceOrInsert p v (ReplaceOrInsert p v t) = ReplaceOrInsert p v t"
    by (rule ReplaceOrInsert_twice)
  show "map_of (ReplaceOrInsert p v t) = (map_of t)(p \<mapsto> v)"
    by (rule map_of_ReplaceOrInsert)
  show "opBody c (OpItem_Set ref bs) (epc1, w1) =
        Returns (fl, epc1, w1\<lparr>trace := trace w1 @ drop (length (trace w)) (trace w1)\<rparr>)"
    if "opBody c (OpItem_Set ref bs) (epc, w) = Returns (fl, epc1, w1)"
    using that
    by (auto simp: opBody_def unmarshalAndStore_def Let_def world_defs ReplaceOrInsert_twice
        split: Set_kind.splits option.splits)
qed (auto simp: ascending_ReplaceOrInsert ascending_distinct length_ReplaceOrInsert
      dest: NextCh_tree_ok)

theorem Set_twice_witness:
  "ascending [(''ns/a'', Service_msg [1::8 word]), (''ns/b'', Service_msg [2])] \<and>
   ReplaceOrInsert ''ns/b'' (Service_msg [3::8 word])
     [(''ns/a'', Service_msg [1::8 word]), (''ns/b'', Service_msg [2])] =
     [(''ns/a'', Service_msg [1]), (''ns/b'', Service_msg [3])] \<and>
   length (ReplaceOrInsert ''ns/b'' (Service_msg [3::8 word])
     [(''ns/a'', Service_msg [1::8 word]), (''ns/b'', Service_msg [2])]) = 2 \<and>
   opBody example_codec (OpItem_Set (Some \<lparr>Set = Set_ServicesSet, Path = ''ns/b''\<rparr>) [3])
     (example_client [(''ns/a'', Service_msg [1]), (''ns/b'', Service_msg [3])],
      emit (Ev_Unmarshal [3]) (example_world [])) =
     Returns (Continue, example_client [(''ns/a'', Service_msg [1]), (''ns/b'', Service_msg [3])],
       emit (Ev_Unmarshal [3]) (emit (Ev_Unmarshal [3]) (example_world []))) \<and>
   NextCh example_codec (0::nat)
     (example_client [(''ns/a'', Service_msg [1]), (''ns/b'', Service_msg [2])],
      example_world [(0, example_Set Set_ServicesSet ''ns/b'' [3]), (0, RecvOp OpItem_Sync)]) =
     Returns ((([\<lparr>Service = [1], Endpoints = []\<rparr>, \<lparr>Service = [3], Endpoints = []\<rparr>], Closed), False),
       example_client [(''ns/a'', Service_msg [1]), (''ns/b'', Service_msg [3])],
       did_Recv 0 (RecvOp OpItem_Sync) []
         (emit (Ev_Unmarshal [3])
           (did_Recv 0 (example_Set Set_ServicesSet ''ns/b'' [3]) [(0, RecvOp OpItem_Sync)]
             (did_Send 0 0 0 True []
               (example_world [(0, example_Set Set_ServicesSet ''ns/b'' [3]),
                  (0, RecvOp OpItem_Sync)]))))) \<and>
   tree_ok (example_client [(''ns/a'', Service_msg [1]), (''ns/b'', Service_msg [3])])"
proof -
  have run: "NextCh example_codec (0::nat)
     (example_client [(''ns/a'', Service_msg [1]), (''ns/b'', Service_msg [2])],
      example_world [(0, example_Set Set_ServicesSet ''ns/b'' [3]), (0, RecvOp OpItem_Sync)]) =
     Returns ((([\<lparr>Service = [1], Endpoints = []\<rparr>, \<lparr>Service = [3], Endpoints = []\<rparr>], Closed), False),
       example_client [(''ns/a'', Service_msg [1]), (''ns/b'', Service_msg [3])],
       did_Recv 0 (RecvOp OpItem_Sync) []
         (emit (Ev_Unmarshal [3])
           (did_Recv 0 (example_Set Set_ServicesSet ''ns/b'' [3]) [(0, RecvOp OpItem_Sync)]
             (did_Send 0 0 0 True []
               (example_world [(0, example_Set Set_ServicesSet ''ns/b'' [3]),
                  (0, RecvOp OpItem_Sync)])))))"
    by (simp add: eval_defs example_Set_def)
  have ok: "tree_ok (example_client [(''ns/a'', Service_msg [1]), (''ns/b'', Service_msg [2])])"
    by (simp add: tree_ok_def example_client_def ascending_def)
  show ?thesis
    using
      Set_twice [where p = "''ns/b''" and v = "Service_msg [3::8 word]"
        and t = "[(''ns/a'', Service_msg [1::8 word]), (''ns/b'', Service_msg [2])]"
        and c = example_codec and ref = "Some \<lparr>Set = Set_ServicesSet, Path = ''ns/b''\<rparr>" and bs = "[3]"
        and epc = "example_client [(''ns/a'', Service_msg [1]), (''ns/b'', Service_msg [2])]"
        and w = "example_world []" and fl = Continue
        and ?epc1.0 = "example_client [(''ns/a'', Service_msg [1]), (''ns/b'', Service_msg [3])]"
        and ?w1.0 = "emit (Ev_Unmarshal [3]) (example_world [])"]
      Set_twice [where c = example_codec and req = "0::nat"
        and epc = "example_client [(''ns/a'', Service_msg [1]), (''ns/b'', Service_msg [2])]"
        and w = "example_world [(0, example_Set Set_ServicesSet ''ns/b'' [3]), (0, RecvOp OpItem_Sync)]",
        THEN conjunct2, THEN conjunct2, THEN conjunct2, rule_format, OF conjI, OF ok run]
      run
    by (simp add: ascending_def example_world_def example_client_def example_codec_def
        opBody_def unmarshalAndStore_def world_defs)
qed

subsection \<open>Delete\<close>

text \<open>
  Claim C9. \<open>Delete\<close> of a path that the tree does not hold leaves the tree as it is: the
  body of the loop returns the client and the world unchanged and asks the loop to go on,
  and the loop goes on to the next \<open>Recv\<close>.
\<close>

theorem Delete_absent:
  assumes "p \<notin> fst ` set t"
  shows "btree_Delete p t = t \<and>
         (data epc = Some t \<longrightarrow>
            opBody c (OpItem_Delete p) (epc, w) = Returns (Continue, epc, w) \<and>
            (recvs w = (lat, RecvOp (OpItem_Delete p)) # rs \<longrightarrow>
               applyLoop c (epc, w) =
                 applyLoop c (epc, did_Recv lat (RecvOp (OpItem_Delete p)) rs w)))"
proof -
  have d: "btree_Delete p t = t"
    using assms by (rule btree_Delete_absent)
  have b: "opBody c (OpItem_Delete p) (epc, w) = Returns (Continue, epc, w)"
    if "data epc = Some t" for w
    using that d by (simp add: opBody_def)
  show ?thesis using d b by (auto intro: applyLoop_Continue)
qed

theorem Delete_absent_witness:
  "''ns/zzz'' \<notin> fst ` set [(''ns/a'', Service_msg [1::8 word])] \<and>
   btree_Delete ''ns/zzz'' [(''ns/a'', Service_msg [1::8 word])] = [(''ns/a'', Service_msg [1])] \<and>
   opBody example_codec (OpItem_Delete ''ns/zzz'')
     (example_client [(''ns/a'', Service_msg [1])], example_world []) =
     Returns (Continue, example_client [(''ns/a'', Service_msg [1])], example_world [])"
  using Delete_absent [of "''ns/zzz''" "[(''ns/a'', Service_msg [1::8 word])]"
      "example_client [(''ns/a'', Service_msg [1])]" example_codec "example_world []" 0 "[]"]
  by (simp add: example_client_def)

subsection \<open>An operation of no known type\<close>

text \<open>
  Claim C10. An operation whose body is neither \<open>Set\<close> nor \<open>Delete\<close> nor \<open>Sync\<close> (or is
  absent) matches no case of the \<open>switch\<close>: the client and the world are unchanged and the
  loop goes on to the next \<open>Recv\<close>; it neither ends the round nor fails.
\<close>

theorem unknown_operation_skipped:
  "opBody c OpItem_nil (epc, w) = Returns (Continue, epc, w) \<and>
   (recvs w = (lat, RecvOp OpItem_nil) # rs \<longrightarrow>
      applyLoop c (epc, w) = applyLoop c (epc, did_Recv lat (RecvOp OpItem_nil) rs w))"
  by (auto simp: opBody_def intro!: applyLoop_Continue)

theorem unknown_operation_skipped_witness:
  "applyLoop example_codec
     (example_client [], example_world [(0, RecvOp OpItem_nil), (0, RecvOp OpItem_Sync)]) =
   Returns (True, example_client [],
     did_Recv 0 (RecvOp OpItem_Sync) []
       (did_Recv 0 (RecvOp OpItem_nil) [(0, RecvOp OpItem_Sync)]
         (example_world [(0, RecvOp OpItem_nil), (0, RecvOp OpItem_Sync)])))"
  using unknown_operation_skipped [of example_codec "example_client []"
      "example_world [(0, RecvOp OpItem_nil), (0, RecvOp OpItem_Sync)]" 0 "[(0, RecvOp OpItem_Sync)]"]
  by (simp add: example_world_def did_Recv_def world_defs applyLoop_RecvOp opBody_def)

subsection \<open>Cancellation before the request is sent\<close>

text \<open>
  Claim C4. When the context is canceled as \<open>NextCh\<close> is entered, \<open>NextCh\<close> returns the
  closed empty channel with \<open>canceled\<close> set and changes neither the client nor the world: no
  request was sent; \<open>Next\<close> then returns no items with \<open>canceled\<close> set. The same holds when
  the context is found canceled after the first \<open>dial\<close>, which sends no request. Whenever
  \<open>NextCh\<close> returns with \<open>canceled\<close> set, the channel is closed and empty. When \<open>NextCh\<close>
  returns without \<open>canceled\<close> and its channel ends by being closed, \<open>Next\<close> returns all the
  values of the channel in their order.
\<close>

theorem canceled_before_send:
  "(ctxErr w \<longrightarrow>
      NextCh c req (epc, w) = Returns ((([], Closed), True), epc, w) \<and>
      Next c req (epc, w) = Returns (([], True), epc, w)) \<and>
   (watch epc = None \<and> dial (epc, w) = Returns (b, epc1, w1) \<and> ctxErr w1 \<longrightarrow>
      NextCh c req (epc, w) = Returns ((([], Closed), True), epc1, w1) \<and>
      Next c req (epc, w) = Returns (([], True), epc1, w1) \<and>
      requests (drop (length (trace w)) (trace w1)) = []) \<and>
   (NextCh c req (epc, w) = Returns ((ch, True), epc', w') \<longrightarrow>
      ch = ([], Closed) \<and> ctxErr w' \<and> Next c req (epc, w) = Returns (([], True), epc', w')) \<and>
   (NextCh c req (epc, w) = Returns (((items, Closed), False), epc', w') \<longrightarrow>
      Next c req (epc, w) = Returns ((items, False), epc', w'))"
proof (intro conjI impI)
  assume c: "ctxErr w"
  then show "NextCh c req (epc, w) = Returns ((([], Closed), True), epc, w)"
    by (simp add: NextCh_def dial_canceled NextCh_retry_canceled)
  then show "Next c req (epc, w) = Returns (([], True), epc, w)"
    by (simp add: Next_def)
next
  assume a: "watch epc = None \<and> dial (epc, w) = Returns (b, epc1, w1) \<and> ctxErr w1"
  then show n: "NextCh c req (epc, w) = Returns ((([], Closed), True), epc1, w1)"
    by (simp add: NextCh_def NextCh_retry_canceled)
  then show "Next c req (epc, w) = Returns (([], True), epc1, w1)"
    by (simp add: Next_def)
  from a dial_trace[of epc w b epc1 w1]
  show "requests (drop (length (trace w)) (trace w1)) = []"
    by (auto simp: dial_adds_def)
next
  assume a: "NextCh c req (epc, w) = Returns ((ch, True), epc', w')"
  then show "ch = ([], Closed)" "ctxErr w'"
    by (auto simp: NextCh_def split: if_splits outcome.splits dest: NextCh_retry_closed)
  from a show "Next c req (epc, w) = Returns (([], True), epc', w')"
    by (simp add: Next_def)
next
  assume a: "NextCh c req (epc, w) = Returns (((items, Closed), False), epc', w')"
  from NextCh_Grouper[OF a] have "data epc' \<noteq> None"
    by (auto simp: Grouper_def split: option.splits)
  with a show "Next c req (epc, w) = Returns ((items, False), epc', w')"
    by (auto simp: Next_def range_chan_append)
qed

theorem canceled_before_send_witness:
  "ctxErr canceled_world \<and>
   NextCh example_codec (7::nat) (New 1, canceled_world) =
     Returns ((([], Closed), True), New 1, canceled_world) \<and>
   Next example_codec (7::nat) (New 1, canceled_world) =
     Returns (([], True), New 1, canceled_world) \<and>
   Next example_codec (7::nat)
     (example_client [(''ns/svc'', Service_msg [1])], example_world [(0, RecvOp OpItem_Sync)]) =
     Returns (([\<lparr>Service = [1], Endpoints = []\<rparr>], False),
       example_client [(''ns/svc'', Service_msg [1])],
       did_Recv 0 (RecvOp OpItem_Sync) []
         (did_Send 0 0 7 True [] (example_world [(0, RecvOp OpItem_Sync)])))"
proof -
  have c: "ctxErr canceled_world"
    by (simp add: ctxErr_def canceled_world_def)
  have run: "NextCh example_codec (7::nat)
     (example_client [(''ns/svc'', Service_msg [1])], example_world [(0, RecvOp OpItem_Sync)]) =
     Returns ((([\<lparr>Service = [1], Endpoints = []\<rparr>], Closed), False),
       example_client [(''ns/svc'', Service_msg [1])],
       did_Recv 0 (RecvOp OpItem_Sync) []
         (did_Send 0 0 7 True [] (example_world [(0, RecvOp OpItem_Sync)])))"
    by (simp add: eval_defs)
  show ?thesis
    using c
      canceled_before_send [where w = canceled_world and c = example_codec and req = "7::nat"
        and epc = "New 1", THEN conjunct1]
      canceled_before_send [where c = example_codec and req = "7::nat",
        THEN conjunct2, THEN conjunct2, THEN conjunct2, rule_format, OF run]
    by simp
qed

subsection \<open>The backoff sleep\<close>

text \<open>
  Claim C5, as the code has it. The context is tested at the start of every turn of \<open>dial\<close>,
  before \<open>DialContext\<close>, and in \<open>postError\<close> after the teardown: when it is canceled there,
  \<open>dial\<close> returns \<open>true\<close> at once with nothing done, and \<open>postError\<close> returns after closing
  the stream and the connection, without sleeping or dialing. When \<open>DialContext\<close> itself
  returns \<open>context.Canceled\<close>, \<open>dial\<close> returns \<open>true\<close> as well, without sleeping. After a
  \<open>DialContext\<close> that fails with another error, and after a \<open>Watch\<close> that fails, the sleep
  is entered with no further test, and \<open>errorSleep\<close> is \<open>time.Sleep\<close>: it lasts \<open>ErrorDelay\<close>
  whatever the time of cancellation is. So a cancellation that arrives after the test of
  the turn, during the attempt or during the sleep, is seen at the test of the next turn:
  \<open>dial\<close> then returns \<open>true\<close> when the whole sleep has elapsed.
\<close>

theorem backoff_sleep:
  "(ctxErr w \<longrightarrow> dial (epc, w) = Returns (True, epc, w)) \<and>
   (ctxErr w \<longrightarrow>
      (\<exists>w'. postError (epc, w) = Returns (epc\<lparr>watch := None, conn := None\<rparr>, w') \<and>
         clock w' = clock w \<and> list_all (\<lambda>a. a \<in> {Ev_CloseSend, Ev_ConnClose})
           (drop (length (trace w)) (trace w')))) \<and>
   (\<not> ctxErr w \<and> dials w = (lat, DialCanceled) # ds \<longrightarrow>
      dial (epc, w) =
        Returns (True, epc, emit (Ev_Dial DialCanceled) (elapse lat (w\<lparr>dials := ds\<rparr>)))) \<and>
   (\<not> ctxErr w \<and> dials w = (lat, DialFailed) # ds \<longrightarrow>
      dial (epc, w) =
        dial (epc, errorSleep epc (klog ''failed to connect''
          (emit (Ev_Dial DialFailed) (elapse lat (w\<lparr>dials := ds\<rparr>)))))) \<and>
   (\<not> ctxErr w \<and> dials w = (lat, DialOk cn) # ds \<and> watches w = (lat', WatchFailed) # ws \<longrightarrow>
      dial (epc, w) =
        dial (epc\<lparr>conn := Some cn, watch := None\<rparr>,
          errorSleep epc (klog ''failed to start watch'' (emit Ev_ConnClose
            (emit (Ev_Watch WatchFailed) (elapse lat'
              ((emit (Ev_Dial (DialOk cn)) (elapse lat (w\<lparr>dials := ds\<rparr>)))\<lparr>watches := ws\<rparr>))))))) \<and>
   (\<not> ctxErr w \<and> dials w = (lat, DialFailed) # ds \<and>
    cancelAt w = Some t \<and> t \<le> clock w + lat + ErrorDelay epc \<longrightarrow>
      dial (epc, w) =
        Returns (True, epc, errorSleep epc (klog ''failed to connect''
          (emit (Ev_Dial DialFailed) (elapse lat (w\<lparr>dials := ds\<rparr>)))))) \<and>
   (\<not> ctxErr w \<and> dials w = (lat, DialOk cn) # ds \<and> watches w = (lat', WatchFailed) # ws \<and>
    cancelAt w = Some t \<and> t \<le> clock w + lat + lat' + ErrorDelay epc \<longrightarrow>
      dial (epc, w) =
        Returns (True, epc\<lparr>conn := Some cn, watch := None\<rparr>,
          errorSleep epc (klog ''failed to start watch'' (emit Ev_ConnClose
            (emit (Ev_Watch WatchFailed) (elapse lat'
              ((emit (Ev_Dial (DialOk cn)) (elapse lat (w\<lparr>dials := ds\<rparr>)))\<lparr>watches := ws\<rparr>))))))) \<and>
   clock (errorSleep epc w) = clock w + ErrorDelay epc \<and>
   cancelAt (errorSleep epc w) = cancelAt w \<and>
   trace (errorSleep epc w) = trace w @ [Ev_Sleep (clock w) (ErrorDelay epc)]"
proof (intro conjI impI)
  assume c: "ctxErr w"
  then show "dial (epc, w) = Returns (True, epc, w)"
    by (rule dial_canceled)
  from c show "\<exists>w'. postError (epc, w) = Returns (epc\<lparr>watch := None, conn := None\<rparr>, w') \<and>
         clock w' = clock w \<and> list_all (\<lambda>a. a \<in> {Ev_CloseSend, Ev_ConnClose})
           (drop (length (trace w)) (trace w'))"
    by (cases "watch epc"; cases "conn epc")
       (simp_all add: postError.simps Let_def, simp_all add: world_defs)
next
  assume a: "\<not> ctxErr w \<and> dials w = (lat, DialFailed) # ds \<and>
    cancelAt w = Some t \<and> t \<le> clock w + lat + ErrorDelay epc"
  then have "ctxErr (errorSleep epc (klog ''failed to connect''
      (emit (Ev_Dial DialFailed) (elapse lat (w\<lparr>dials := ds\<rparr>)))))"
    by (simp add: ctxErr_def world_defs)
  with a show "dial (epc, w) =
      Returns (True, epc, errorSleep epc (klog ''failed to connect''
        (emit (Ev_Dial DialFailed) (elapse lat (w\<lparr>dials := ds\<rparr>)))))"
    by (simp add: dial_DialFailed dial_canceled)
next
  assume a: "\<not> ctxErr w \<and> dials w = (lat, DialOk cn) # ds \<and>
    watches w = (lat', WatchFailed) # ws \<and>
    cancelAt w = Some t \<and> t \<le> clock w + lat + lat' + ErrorDelay epc"
  then have "ctxErr (errorSleep epc (klog ''failed to start watch'' (emit Ev_ConnClose
      (emit (Ev_Watch WatchFailed) (elapse lat'
        ((emit (Ev_Dial (DialOk cn)) (elapse lat (w\<lparr>dials := ds\<rparr>)))\<lparr>watches := ws\<rparr>))))))"
    by (simp add: ctxErr_def world_defs)
  with a show "dial (epc, w) =
      Returns (True, epc\<lparr>conn := Some cn, watch := None\<rparr>,
        errorSleep epc (klog ''failed to start watch'' (emit Ev_ConnClose
          (emit (Ev_Watch WatchFailed) (elapse lat'
            ((emit (Ev_Dial (DialOk cn)) (elapse lat (w\<lparr>dials := ds\<rparr>)))\<lparr>watches := ws\<rparr>))))))"
    by (simp add: dial_WatchFailed dial_canceled)
qed (auto simp: dial_DialCanceled dial_DialFailed dial_WatchFailed world_defs)

text \<open>
  The claim as stated fails twice. A cancellation at time 5 does not end a sleep entered at
  time 0 with a delay of 10: \<open>dial\<close> returns at time 10. And when \<open>Watch\<close> fails at time 3
  in a context canceled at time 2, the sleep is still entered, at time 3.
\<close>

theorem backoff_sleep_counterexample:
  "dial (New 10 :: (bytes, bytes) EndpointsClient, failing_world (Some 5) [(0, DialFailed)] []) =
     Returns (True, New 10,
       \<lparr>clock = 10, cancelAt = Some 5, dials = [], watches = [], sends = [], recvs = [],
        trace = [Ev_Dial DialFailed, Ev_Log ''failed to connect'', Ev_Sleep 0 10]\<rparr>) \<and>
   dial (New 10 :: (bytes, bytes) EndpointsClient,
       failing_world (Some 2) [(1, DialOk 1)] [(2, WatchFailed)]) =
     Returns (True, (New 10)\<lparr>conn := Some 1\<rparr>,
       \<lparr>clock = 13, cancelAt = Some 2, dials = [], watches = [], sends = [], recvs = [],
        trace = [Ev_Dial (DialOk 1), Ev_Watch WatchFailed, Ev_ConnClose,
                 Ev_Log ''failed to start watch'', Ev_Sleep 3 10]\<rparr>)"
  by (simp add: failing_world_def New_def dial.simps Dial_def DialContext_def Watch_def
      ctxErr_def world_defs)

text \<open>
  The amended claim at work: canceled at entry; \<open>DialContext\<close> answering \<open>context.Canceled\<close>
  at time 2; a cancellation at time 3 during a sleep entered at time 1; a cancellation at
  time 2 during a \<open>Watch\<close> that fails at time 4.
\<close>

theorem backoff_sleep_witness:
  "dial (New 10 :: (bytes, bytes) EndpointsClient, failing_world (Some 0) [(0, DialFailed)] []) =
     Returns (True, New 10, failing_world (Some 0) [(0, DialFailed)] []) \<and>
   dial (New 10 :: (bytes, bytes) EndpointsClient, failing_world (Some 1) [(2, DialCanceled)] []) =
     Returns (True, New 10,
       \<lparr>clock = 2, cancelAt = Some 1, dials = [], watches = [], sends = [], recvs = [],
        trace = [Ev_Dial DialCanceled]\<rparr>) \<and>
   dial (New 10 :: (bytes, bytes) EndpointsClient, failing_world (Some 3) [(1, DialFailed)] []) =
     Returns (True, New 10,
       \<lparr>clock = 11, cancelAt = Some 3, dials = [], watches = [], sends = [], recvs = [],
        trace = [Ev_Dial DialFailed, Ev_Log ''failed to connect'', Ev_Sleep 1 10]\<rparr>) \<and>
   dial (New 10 :: (bytes, bytes) EndpointsClient,
       failing_world (Some 2) [(1, DialOk 7)] [(3, WatchFailed)]) =
     Returns (True, (New 10)\<lparr>conn := Some 7\<rparr>,
       \<lparr>clock = 14, cancelAt = Some 2, dials = [], watches = [], sends = [], recvs = [],
        trace = [Ev_Dial (DialOk 7), Ev_Watch WatchFailed, Ev_ConnClose,
                 Ev_Log ''failed to start watch'', Ev_Sleep 4 10]\<rparr>) \<and>
   postError (example_client [], failing_world (Some 0) [(0, DialFailed)] []) =
     Returns ((New 1)\<lparr>data := Some []\<rparr>,
       emit Ev_ConnClose (emit Ev_CloseSend (failing_world (Some 0) [(0, DialFailed)] [])))"
  using
    backoff_sleep [where w = "failing_world (Some 0) [(0, DialFailed)] []"
      and epc = "New 10 :: (bytes, bytes) EndpointsClient", THEN conjunct1]
    backoff_sleep [where w = "failing_world (Some 1) [(2, DialCanceled)] []" and lat = 2
      and ds = "[]" and epc = "New 10 :: (bytes, bytes) EndpointsClient",
      THEN conjunct2, THEN conjunct2, THEN conjunct1]
    backoff_sleep [where w = "failing_world (Some 3) [(1, DialFailed)] []" and lat = 1
      and ds = "[]" and t = 3 and epc = "New 10 :: (bytes, bytes) EndpointsClient",
      THEN conjunct2, THEN conjunct2, THEN conjunct2, THEN conjunct2, THEN conjunct2,
      THEN conjunct1]
    backoff_sleep [where w = "failing_world (Some 2) [(1, DialOk 7)] [(3, WatchFailed)]"
      and lat = 1 and cn = 7 and ds = "[]" and lat' = 3 and ws = "[]" and t = 2
      and epc = "New 10 :: (bytes, bytes) EndpointsClient",
      THEN conjunct2, THEN conjunct2, THEN conjunct2, THEN conjunct2, THEN conjunct2,
      THEN conjunct2, THEN conjunct1]
  by (simp add: failing_world_def ctxErr_def postError.simps example_client_def New_def world_defs)

subsection \<open>A transport failure in the middle of a round\<close>

text \<open>
  Claim C3. When \<open>NextCh\<close> completes a round, the events it added are a prefix, the \<open>Send\<close>
  of the caller's request that succeeded, and the events of the receive loop up to \<open>Sync\<close>,
  none of which is a failure. If a \<open>Send\<close> or a \<open>Recv\<close> failed during the call, the prefix
  is not empty. A prefix that is not empty ends with \<open>btree.New\<close>, the end of the last
  successful \<open>dial\<close>: the tree at the end is then the empty tree with the operations
  received after that point applied in order, whatever the tree held and whatever was
  received before. Every request sent in the prefix is the caller's request, and the
  prefix has as many \<open>btree.New\<close> as successful \<open>Watch\<close>. The channel returned holds the
  grouping of the tree at the end.
\<close>

theorem reconnect_restarts_round:
  assumes "NextCh c req (epc, w) = Returns ((ch, False), epc', w')"
  shows "ch = Grouper (data epc') \<and>
         (\<exists>pre h tr. trace w' = trace w @ pre @ Ev_Send h req True # tr \<and>
            list_all loop_event tr \<and>
            (list_ex transport_failure (pre @ Ev_Send h req True # tr) \<longrightarrow> pre \<noteq> []) \<and>
            set (requests pre) \<subseteq> {req} \<and>
            rebuilds pre = connections pre \<and>
            (if pre = [] then data epc' = map_option (fold (applied c) (received_ops tr)) (data epc)
             else last pre = Ev_BtreeNew \<and>
                  data epc' = Some (fold (applied c) (received_ops tr) btree_New)))"
proof -
  have "ch = Grouper (data epc') \<and>
    (\<exists>new. trace w' = trace w @ new \<and> completes c req epc epc' new)"
    using assms by (rule NextCh_completes)
  then obtain pre h tr where
    r: "ch = Grouper (data epc')" "trace w' = trace w @ pre @ Ev_Send h req True # tr"
      "list_all loop_event tr" "set (requests pre) \<subseteq> {req}" "rebuilds pre = connections pre"
      "if pre = [] then data epc' = map_option (fold (applied c) (received_ops tr)) (data epc)
       else last pre = Ev_BtreeNew \<and> data epc' = Some (fold (applied c) (received_ops tr) btree_New)"
    unfolding completes_def by auto
  have "list_ex transport_failure (pre @ Ev_Send h req True # tr) \<longrightarrow> pre \<noteq> []"
    using loop_events_no_failure[OF r(3)] by (auto simp: transport_failure_def)
  with r show ?thesis by blast
qed

lemma flaky_run:
  "NextCh example_codec (7::nat) (example_client [(''ns/old'', Service_msg [9])], flaky_world) =
     Returns ((([\<lparr>Service = [2], Endpoints = []\<rparr>], Closed), False),
       \<lparr>ErrorDelay = 1, conn = Some 1, watch = Some 1, data = Some [(''ns/b'', Service_msg [2])]\<rparr>,
       \<lparr>clock = 1, cancelAt = None, dials = [], watches = [], sends = [], recvs = [],
        trace = flaky_trace\<rparr>)"
  by (simp add: eval_defs flaky_world_def flaky_trace_def example_Set_def)

theorem reconnect_restarts_round_witness:
  "NextCh example_codec (7::nat) (example_client [(''ns/old'', Service_msg [9])], flaky_world) =
     Returns ((([\<lparr>Service = [2], Endpoints = []\<rparr>], Closed), False),
       \<lparr>ErrorDelay = 1, conn = Some 1, watch = Some 1, data = Some [(''ns/b'', Service_msg [2])]\<rparr>,
       \<lparr>clock = 1, cancelAt = None, dials = [], watches = [], sends = [], recvs = [],
        trace = flaky_trace\<rparr>) \<and>
   list_ex transport_failure flaky_trace \<and>
   (\<exists>pre h tr. flaky_trace = pre @ Ev_Send h 7 True # tr \<and> list_all loop_event tr \<and>
      pre \<noteq> [] \<and> last pre = Ev_BtreeNew \<and> set (requests pre) \<subseteq> {7} \<and>
      rebuilds pre = connections pre \<and>
      Some [(''ns/b'', Service_msg [2])] =
        Some (fold (applied example_codec) (received_ops tr) btree_New))"
proof -
  have f: "list_ex transport_failure flaky_trace"
    by (simp add: flaky_trace_def transport_failure_def)
  define e' :: "(bytes, bytes) EndpointsClient" where
    "e' = \<lparr>ErrorDelay = 1, conn = Some 1, watch = Some 1, data = Some [(''ns/b'', Service_msg [2])]\<rparr>"
  define w' :: "nat world" where
    "w' = \<lparr>clock = 1, cancelAt = None, dials = [], watches = [], sends = [], recvs = [],
        trace = flaky_trace\<rparr>"
  from reconnect_restarts_round[OF flaky_run, THEN conjunct2, folded e'_def w'_def]
  obtain pre h tr where
    r0: "trace w' = trace flaky_world @ pre @ Ev_Send h 7 True # tr" "list_all loop_event tr"
      "list_ex transport_failure (pre @ Ev_Send h 7 True # tr) \<longrightarrow> pre \<noteq> []"
      "set (requests pre) \<subseteq> {7}" "rebuilds pre = connections pre"
      "if pre = []
       then data e' =
         map_option (fold (applied example_codec) (received_ops tr))
           (data (example_client [(''ns/old'', Service_msg [9])]))
       else last pre = Ev_BtreeNew \<and>
         data e' = Some (fold (applied example_codec) (received_ops tr) btree_New)"
    by blast
  have t: "flaky_trace = pre @ Ev_Send h 7 True # tr"
    using r0(1) by (simp add: w'_def flaky_world_def)
  have ne: "pre \<noteq> []"
    using r0(3) f unfolding t by blast
  have l: "last pre = Ev_BtreeNew"
    "data e' = Some (fold (applied example_codec) (received_ops tr) btree_New)"
    using r0(6) ne by simp_all
  have d: "data e' = Some [(''ns/b'', Service_msg [2])]"
    by (simp add: e'_def)
  have "\<exists>pre h tr. flaky_trace = pre @ Ev_Send h 7 True # tr \<and> list_all loop_event tr \<and>
      pre \<noteq> [] \<and> last pre = Ev_BtreeNew \<and> set (requests pre) \<subseteq> {7} \<and>
      rebuilds pre = connections pre \<and>
      Some [(''ns/b'', Service_msg [2::8 word])] =
        Some (fold (applied example_codec) (received_ops tr) btree_New)"
    using t r0(2,4,5) ne l d by (intro exI[of _ pre] exI[of _ h] exI[of _ tr]) simp
  with flaky_run f show ?thesis by blast
qed

end
